theory Spec2Isabelle
  imports Main "HOL-Library.AList" "HOL-Library.Sublist"
begin

section \<open>Protocol data (src/environment/providers/contribution.ts, imports from ../../protocol)\<close>

text \<open>
  The protocol types are plain JavaScript objects. An optional property is an \<open>option\<close>
  (\<open>None\<close> is \<open>undefined\<close>), an array is a list, and an object used as a dictionary
  (\<open>MenuContributions\<close>) is an association list holding its own enumerable properties in
  insertion order: \<open>Object.entries\<close> is the list itself, a property read is \<open>map_of\<close>, and
  a property write is \<open>AList.update\<close> (overwrite in place, or append a new key at the end).
  A JavaScript object has each key once; \<open>wellFormed\<close> below states that.

  A read \<open>o[k]\<close> and a write \<open>o[k] = v\<close> act on the own properties of \<open>o\<close> in this way
  exactly when \<open>k\<close> is not a property name of \<open>Object.prototype\<close>. For the other keys
  JavaScript differs: the read \<open>merged.menus[menu]\<close> of line 129 finds the inherited value
  where the key is not an own one, so that line 132 spreads a value that is not iterable
  and throws outside the \<open>try\<close> of lines 75-85; and the write \<open>filteredMenus[menu] = ...\<close>
  of line 164 with the key \<open>__proto__\<close> runs the setter of the prototype and creates no
  property. The keys of a menus object are declared as \<open>ContributableMenu\<close>, the menu
  identifiers of the protocol, and none of them is such a name; \<open>plainKeys\<close> below states
  that, and every property that rests on such a read or write has it as a hypothesis.
\<close>

type_synonym ContributableMenu = string

record ActionItem =
  label :: "string option"
  description :: "string option"
  group :: "string option"
  iconURL :: "string option"
  iconDescription :: "string option"

record CommandContribution =
  command :: string
  title :: "string option"
  category :: "string option"
  description :: "string option"
  iconURL :: "string option"
  actionItem :: "ActionItem option"

record MenuItemContribution =
  command :: string
  "when" :: "string option"

type_synonym MenuContributions = "(ContributableMenu \<times> MenuItemContribution list) list"

record Contributions =
  commands :: "CommandContribution list option"
  menus :: "MenuContributions option"

text \<open>The object literal \<open>{}\<close>.\<close>

definition emptyContributions :: Contributions where
  "emptyContributions = \<lparr>commands = None, menus = None\<rparr>"

text \<open>Every key of the \<open>menus\<close> object occurs once.\<close>

definition wellFormed :: "Contributions \<Rightarrow> bool" where
  "wellFormed c = (case menus c of None \<Rightarrow> True | Some m \<Rightarrow> distinct (map fst m))"

text \<open>
  The property names of \<open>Object.prototype\<close> (ECMAScript, with its annex B), and the
  contributions none of whose menu keys is one of them.
\<close>

definition objectPrototypeKeys :: "string list" where
  "objectPrototypeKeys =
     [''constructor'', ''__defineGetter__'', ''__defineSetter__'', ''hasOwnProperty'',
      ''__lookupGetter__'', ''__lookupSetter__'', ''isPrototypeOf'', ''propertyIsEnumerable'',
      ''toString'', ''valueOf'', ''__proto__'', ''toLocaleString'']"

definition plainKeys :: "Contributions \<Rightarrow> bool" where
  "plainKeys c =
     (case menus c of
        None \<Rightarrow> True
      | Some m \<Rightarrow> (\<forall>menu \<in> set (map fst m). menu \<notin> set objectPrototypeKeys))"

text \<open>Readers used to state properties: \<open>c.commands\<close> with \<open>undefined\<close> read as no
  commands, and \<open>c.menus && c.menus[menu]\<close>.\<close>

definition commandsOf :: "Contributions \<Rightarrow> CommandContribution list" where
  "commandsOf c = (case commands c of None \<Rightarrow> [] | Some cs \<Rightarrow> cs)"

definition menuLookup :: "Contributions \<Rightarrow> ContributableMenu \<Rightarrow> MenuItemContribution list option" where
  "menuLookup c menu = (case menus c of None \<Rightarrow> None | Some m \<Rightarrow> map_of m menu)"

definition menuItems :: "Contributions \<Rightarrow> ContributableMenu \<Rightarrow> MenuItemContribution list" where
  "menuItems c menu = (case menuLookup c menu of None \<Rightarrow> [] | Some items \<Rightarrow> items)"

text \<open>Appending the items of one input under a key, seen on the looked-up values.\<close>

definition joinItems :: "'a list option \<Rightarrow> 'a list option \<Rightarrow> 'a list option" where
  "joinItems x y = (case y of None \<Rightarrow> x | Some ys \<Rightarrow> Some ((case x of None \<Rightarrow> [] | Some xs \<Rightarrow> xs) @ ys))"

section \<open>mergeContributions (lines 108-139)\<close>

text \<open>
  The body of the inner loop over \<open>Object.entries(c.menus)\<close>: an array is always truthy,
  so, for a key that is a menu identifier (\<open>plainKeys\<close>), \<open>!merged.menus[menu]\<close> holds
  exactly when the key is not an own key of \<open>merged.menus\<close>.
\<close>

definition mergeMenuItems ::
  "MenuContributions \<Rightarrow> ContributableMenu \<times> MenuItemContribution list \<Rightarrow> MenuContributions" where
  "mergeMenuItems mergedMenus e =
     (case e of (menu, items) \<Rightarrow>
        (case map_of mergedMenus menu of
           None \<Rightarrow> AList.update menu items mergedMenus
         | Some old \<Rightarrow> AList.update menu (old @ items) mergedMenus))"

text \<open>The body of the outer loop \<open>for (const c of contributions)\<close>.\<close>

definition mergeOne :: "Contributions \<Rightarrow> Contributions \<Rightarrow> Contributions" where
  "mergeOne merged c =
     (let merged1 =
        (case commands c of
           None \<Rightarrow> merged
         | Some cs \<Rightarrow>
             (case commands merged of
                None \<Rightarrow> merged\<lparr>commands := Some cs\<rparr>
              | Some ms \<Rightarrow> merged\<lparr>commands := Some (ms @ cs)\<rparr>))
      in (case menus c of
            None \<Rightarrow> merged1
          | Some m \<Rightarrow>
              (case menus merged1 of
                 None \<Rightarrow> merged1\<lparr>menus := Some m\<rparr>
               | Some mm \<Rightarrow> merged1\<lparr>menus := Some (foldl mergeMenuItems mm m)\<rparr>)))"

definition mergeContributions :: "Contributions list \<Rightarrow> Contributions" where
  "mergeContributions contributions =
     (case contributions of
        [] \<Rightarrow> emptyContributions
      | [c] \<Rightarrow> c
      | _ \<Rightarrow> foldl mergeOne emptyContributions contributions)"

section \<open>The injected evaluators and the calls made to them\<close>

text \<open>
  \<open>evaluate\<close>, \<open>evaluateTemplate\<close>, \<open>createChildContext\<close> and \<open>TEMPLATE_BEGIN\<close> live in
  modules that are not part of the sources at hand; the functions below take them as
  parameters, as the source itself does (\<open>evaluateExpr = evaluate\<close>,
  \<open>{ evaluateTemplate, needsEvaluation } = DEFAULT_TEMPLATE_EVALUATOR\<close>). The context type
  is a type variable. A throwing evaluator returns \<open>Inl\<close>. The result of \<open>evaluateExpr\<close>
  is only ever read through \<open>!\<close>, so the parameter returns its truthiness.
  Evaluators are functions of their arguments: they do not mutate the child context.
\<close>

datatype error = Error string

record 'c evaluators =
  createChildContext :: "'c \<Rightarrow> 'c"
  evaluateExpr :: "string \<Rightarrow> 'c \<Rightarrow> error + bool"
  evaluateTemplate :: "string \<Rightarrow> 'c \<Rightarrow> error + string"
  needsEvaluation :: "string \<Rightarrow> bool"

text \<open>
  \<open>DEFAULT_TEMPLATE_EVALUATOR.needsEvaluation\<close> (lines 169-180) is
  \<open>template.includes(TEMPLATE_BEGIN)\<close>; the constant \<open>TEMPLATE_BEGIN\<close> of the lexer is a
  parameter here.
\<close>

definition defaultNeedsEvaluation :: "string \<Rightarrow> string \<Rightarrow> bool" where
  "defaultNeedsEvaluation TEMPLATE_BEGIN template = sublist TEMPLATE_BEGIN template"

text \<open>
  What a counting stub would observe: every call to an evaluator, with its arguments, in
  program order. A computation returns the calls it made together with either the
  exception it threw or its value.
\<close>

datatype 'c call =
    EvaluateExpr string 'c
  | NeedsEvaluation string
  | EvaluateTemplate string 'c

type_synonym ('c, 'a) traced = "'c call list \<times> (error + 'a)"

definition ret :: "'a \<Rightarrow> ('c, 'a) traced" where
  "ret a = ([], Inr a)"

definition andThen :: "('c, 'a) traced \<Rightarrow> ('a \<Rightarrow> ('c, 'b) traced) \<Rightarrow> ('c, 'b) traced" where
  "andThen m f =
     (case m of
        (t, Inl e) \<Rightarrow> (t, Inl e)
      | (t, Inr a) \<Rightarrow> (case f a of (t', r) \<Rightarrow> (t @ t', r)))"

definition callEvaluateExpr :: "'c evaluators \<Rightarrow> string \<Rightarrow> 'c \<Rightarrow> ('c, bool) traced" where
  "callEvaluateExpr ev expr c = ([EvaluateExpr expr c], evaluateExpr ev expr c)"

definition callNeedsEvaluation :: "'c evaluators \<Rightarrow> string \<Rightarrow> ('c, bool) traced" where
  "callNeedsEvaluation ev template = ([NeedsEvaluation template], Inr (needsEvaluation ev template))"

definition callEvaluateTemplate :: "'c evaluators \<Rightarrow> string \<Rightarrow> 'c \<Rightarrow> ('c, string) traced" where
  "callEvaluateTemplate ev template c = ([EvaluateTemplate template c], evaluateTemplate ev template c)"

section \<open>contextFilter and filterContributions (lines 142-167)\<close>

fun contextFilterLoop ::
  "'c evaluators \<Rightarrow> 'c \<Rightarrow> MenuItemContribution list \<Rightarrow> MenuItemContribution list
     \<Rightarrow> ('c, MenuItemContribution list) traced" where
  "contextFilterLoop ev context [] keep = ret keep"
| "contextFilterLoop ev context (item # items) keep =
     (case when item of
        None \<Rightarrow> contextFilterLoop ev context items (keep @ [item])
      | Some w \<Rightarrow>
          andThen (callEvaluateExpr ev w (createChildContext ev context))
            (\<lambda>b. if \<not> b then contextFilterLoop ev context items keep
                 else contextFilterLoop ev context items (keep @ [item])))"

definition contextFilter ::
  "'c evaluators \<Rightarrow> 'c \<Rightarrow> MenuItemContribution list \<Rightarrow> ('c, MenuItemContribution list) traced" where
  "contextFilter ev context items = contextFilterLoop ev context items []"

text \<open>The loop of lines 163-165. For a key that is a menu identifier (\<open>plainKeys\<close>) the
  write \<open>filteredMenus[menu] = ...\<close> sets an own property of \<open>filteredMenus\<close>.\<close>

fun filterMenusLoop ::
  "'c evaluators \<Rightarrow> 'c \<Rightarrow> (ContributableMenu \<times> MenuItemContribution list) list
     \<Rightarrow> MenuContributions \<Rightarrow> ('c, MenuContributions) traced" where
  "filterMenusLoop ev context [] filteredMenus = ret filteredMenus"
| "filterMenusLoop ev context ((menu, items) # rest) filteredMenus =
     andThen (contextFilter ev context items)
       (\<lambda>kept. filterMenusLoop ev context rest (AList.update menu kept filteredMenus))"

definition filterContributions ::
  "'c evaluators \<Rightarrow> 'c \<Rightarrow> Contributions \<Rightarrow> ('c, Contributions) traced" where
  "filterContributions ev context contributions =
     (case menus contributions of
        None \<Rightarrow> ret contributions
      | Some m \<Rightarrow>
          andThen (filterMenusLoop ev context m [])
            (\<lambda>filteredMenus. ret (contributions\<lparr>menus := Some filteredMenus\<rparr>)))"

section \<open>evaluateContributions (lines 185-234)\<close>

text \<open>JavaScript truthiness of an optional string property: defined and not \<open>""\<close>.\<close>

definition truthy :: "string option \<Rightarrow> bool" where
  "truthy field = (case field of None \<Rightarrow> False | Some s \<Rightarrow> s \<noteq> [])"

text \<open>
  One statement \<open>if (x && needsEvaluation(x)) { changed.x = evaluateTemplate(x, childContext) }\<close>.
  The value is the property \<open>changed.x\<close> afterwards: \<open>None\<close> when the key was not set.
\<close>

definition evaluateField ::
  "'c evaluators \<Rightarrow> 'c \<Rightarrow> string option \<Rightarrow> ('c, string option) traced" where
  "evaluateField ev childContext field =
     (if truthy field then
        andThen (callNeedsEvaluation ev (the field))
          (\<lambda>needs. if needs
             then andThen (callEvaluateTemplate ev (the field) childContext) (\<lambda>v. ret (Some v))
             else ret None)
      else ret None)"

text \<open>The spread \<open>{ ...original, ...changed }\<close> on one property.\<close>

definition spread :: "'a option \<Rightarrow> 'a option \<Rightarrow> 'a option" where
  "spread original changed = (case changed of None \<Rightarrow> original | Some v \<Rightarrow> Some v)"

text \<open>
  The block under \<open>if (command.actionItem)\<close>. The value is \<open>changed.actionItem\<close>
  afterwards, set only when \<open>Object.keys(changedActionItem).length !== 0\<close>.
\<close>

definition evaluateActionItem ::
  "'c evaluators \<Rightarrow> 'c \<Rightarrow> ActionItem \<Rightarrow> ('c, ActionItem option) traced" where
  "evaluateActionItem ev childContext a =
     andThen (evaluateField ev childContext (label a)) (\<lambda>changedLabel.
     andThen (evaluateField ev childContext (ActionItem.description a)) (\<lambda>changedDescription.
     andThen (evaluateField ev childContext (group a)) (\<lambda>changedGroup.
     andThen (evaluateField ev childContext (ActionItem.iconURL a)) (\<lambda>changedIconURL.
     andThen (evaluateField ev childContext (iconDescription a)) (\<lambda>changedIconDescription.
       ret (if changedLabel \<noteq> None \<or> changedDescription \<noteq> None \<or> changedGroup \<noteq> None
               \<or> changedIconURL \<noteq> None \<or> changedIconDescription \<noteq> None
            then Some \<lparr>label = spread (label a) changedLabel,
                       description = spread (ActionItem.description a) changedDescription,
                       group = spread (group a) changedGroup,
                       iconURL = spread (ActionItem.iconURL a) changedIconURL,
                       iconDescription = spread (iconDescription a) changedIconDescription\<rparr>
            else None))))))"

text \<open>
  The body of the loop over the commands. The first component of the value is the
  source's \<open>modified\<close>: \<open>True\<close> when a new object \<open>{ ...command, ...changed }\<close> is pushed,
  \<open>False\<close> when the original \<open>command\<close> object itself is pushed.
\<close>

definition evaluateCommand ::
  "'c evaluators \<Rightarrow> 'c \<Rightarrow> CommandContribution \<Rightarrow> ('c, bool \<times> CommandContribution) traced" where
  "evaluateCommand ev context cmd =
     (let childContext = createChildContext ev context in
      andThen (evaluateField ev childContext (title cmd)) (\<lambda>changedTitle.
      andThen (evaluateField ev childContext (category cmd)) (\<lambda>changedCategory.
      andThen (evaluateField ev childContext (CommandContribution.description cmd)) (\<lambda>changedDescription.
      andThen (evaluateField ev childContext (CommandContribution.iconURL cmd)) (\<lambda>changedIconURL.
      andThen (case actionItem cmd of
                 None \<Rightarrow> ret None
               | Some a \<Rightarrow> evaluateActionItem ev childContext a) (\<lambda>changedActionItem.
        (let modified = (changedTitle \<noteq> None \<or> changedCategory \<noteq> None
                          \<or> changedDescription \<noteq> None \<or> changedIconURL \<noteq> None
                          \<or> changedActionItem \<noteq> None)
         in ret (modified,
                 if modified
                 then \<lparr>CommandContribution.command = CommandContribution.command cmd,
                       title = spread (title cmd) changedTitle,
                       category = spread (category cmd) changedCategory,
                       description = spread (CommandContribution.description cmd) changedDescription,
                       iconURL = spread (CommandContribution.iconURL cmd) changedIconURL,
                       actionItem = spread (actionItem cmd) changedActionItem\<rparr>
                 else cmd))))))))"

fun evaluateCommandsLoop ::
  "'c evaluators \<Rightarrow> 'c \<Rightarrow> CommandContribution list \<Rightarrow> CommandContribution list
     \<Rightarrow> ('c, CommandContribution list) traced" where
  "evaluateCommandsLoop ev context [] evaluatedCommands = ret evaluatedCommands"
| "evaluateCommandsLoop ev context (cmd # rest) evaluatedCommands =
     andThen (evaluateCommand ev context cmd)
       (\<lambda>r. evaluateCommandsLoop ev context rest (evaluatedCommands @ [snd r]))"

definition evaluateContributions ::
  "'c evaluators \<Rightarrow> 'c \<Rightarrow> Contributions \<Rightarrow> ('c, Contributions) traced" where
  "evaluateContributions ev context contributions =
     (case commands contributions of
        None \<Rightarrow> ret contributions
      | Some cmds \<Rightarrow>
          if length cmds = 0 then ret contributions
          else andThen (evaluateCommandsLoop ev context cmds [])
                 (\<lambda>evaluatedCommands. ret (contributions\<lparr>commands := Some evaluatedCommands\<rparr>)))"

section \<open>ContributionRegistry (lines 31-101)\<close>

text \<open>
  A \<open>ContributionsEntry\<close> is an object compared by reference (\<open>e !== entry\<close>): \<open>ref\<close> is
  the identity of the object, and \<open>!==\<close> compares it. A \<open>ContributionUnsubscribable\<close>
  carries the entry it deregisters; its \<open>unsubscribe\<close> closure is the function
  \<open>unsubscribe\<close> below.
\<close>

record ContributionsEntry =
  ref :: nat
  contributions :: Contributions

record ContributionUnsubscribable =
  entry :: ContributionsEntry

text \<open>
  Modelled from the spec: \<open>isEqual\<close> of ../../util is not among the sources; the spec
  calls it a deep-equality check. Arrays are equal when equal element by element, objects
  when they have the same keys with equal values, whatever the order of the keys.
\<close>

definition menusEqual :: "MenuContributions \<Rightarrow> MenuContributions \<Rightarrow> bool" where
  "menusEqual a b = (\<forall>k \<in> set (map fst a) \<union> set (map fst b). map_of a k = map_of b k)"

definition isEqual :: "Contributions \<Rightarrow> Contributions \<Rightarrow> bool" where
  "isEqual a b =
     (commands a = commands b \<and>
      (case menus a of
         None \<Rightarrow> menus b = None
       | Some x \<Rightarrow> (case menus b of None \<Rightarrow> False | Some y \<Rightarrow> menusEqual x y)))"

text \<open>
  The \<open>try\<close>/\<open>catch\<close> inside \<open>entries.map\<close> (lines 74-86): the value for one entry, and
  what it writes with \<open>console.error\<close> (the contributions and the error).
\<close>

definition evaluateEntry ::
  "'c evaluators \<Rightarrow> 'c \<Rightarrow> Contributions \<Rightarrow> ('c, Contributions) traced" where
  "evaluateEntry ev context c =
     andThen (filterContributions ev context c) (\<lambda>filtered. evaluateContributions ev context filtered)"

definition tryEvaluateEntry ::
  "'c evaluators \<Rightarrow> 'c \<Rightarrow> Contributions \<Rightarrow> Contributions \<times> (Contributions \<times> error) list" where
  "tryEvaluateEntry ev context c =
     (case snd (evaluateEntry ev context c) of
        Inr evaluated \<Rightarrow> (evaluated, [])
      | Inl err \<Rightarrow> (emptyContributions, [(c, err)]))"

text \<open>The two \<open>map\<close> stages of the pipeline (lines 73-88) on one pair of entries and context.\<close>

definition evaluateEntries ::
  "'c evaluators \<Rightarrow> 'c \<Rightarrow> ContributionsEntry list \<Rightarrow> Contributions list" where
  "evaluateEntries ev context es = map (\<lambda>e. fst (tryEvaluateEntry ev context (contributions e))) es"

definition reportedErrors ::
  "'c evaluators \<Rightarrow> 'c \<Rightarrow> ContributionsEntry list \<Rightarrow> (Contributions \<times> error) list" where
  "reportedErrors ev context es = concat (map (\<lambda>e. snd (tryEvaluateEntry ev context (contributions e))) es)"

definition aggregate :: "'c evaluators \<Rightarrow> 'c \<Rightarrow> ContributionsEntry list \<Rightarrow> Contributions" where
  "aggregate ev context es = mergeContributions (evaluateEntries ev context es)"

text \<open>
  The registry with one observer of \<open>contributions\<close>, subscribed when the registry is
  built. \<open>entries\<close> is \<open>_entries.value\<close>; \<open>transitions\<close> lists every value passed to
  \<open>_entries.next\<close>; \<open>latestContext\<close> is the latest snapshot of the context observable
  (\<open>combineLatest\<close> emits nothing before the first one); \<open>computed\<close> lists the aggregates
  leaving \<open>map(c => mergeContributions(c))\<close>, one for each recomputation; \<open>published\<close>
  lists the aggregates that pass \<open>distinctUntilChanged\<close> and reach the observer;
  \<open>console\<close> lists the \<open>console.error\<close> reports. Everything runs synchronously.
\<close>

record 'c registry =
  entries :: "ContributionsEntry list"
  transitions :: "ContributionsEntry list list"
  latestContext :: "'c option"
  computed :: "Contributions list"
  published :: "Contributions list"
  console :: "(Contributions \<times> error) list"

definition init :: "'c registry" where
  "init = \<lparr>entries = [], transitions = [], latestContext = None, computed = [], published = [], console = []\<rparr>"

text \<open>\<open>distinctUntilChanged((a, b) => isEqual(a, b))\<close>: the first value passes; a later one
  passes unless it is equal to the last value that passed.\<close>

definition publish :: "Contributions \<Rightarrow> 'c registry \<Rightarrow> 'c registry" where
  "publish a s =
     (if published s \<noteq> [] \<and> isEqual (last (published s)) a then s
      else s\<lparr>published := published s @ [a]\<rparr>)"

definition recompute :: "'c evaluators \<Rightarrow> 'c registry \<Rightarrow> 'c registry" where
  "recompute ev s =
     (case latestContext s of
        None \<Rightarrow> s
      | Some ctx \<Rightarrow>
          publish (aggregate ev ctx (entries s))
            (s\<lparr>computed := computed s @ [aggregate ev ctx (entries s)],
               console := console s @ reportedErrors ev ctx (entries s)\<rparr>))"

text \<open>\<open>this._entries.next(es)\<close> and an emission of the context observable.\<close>

definition entriesNext :: "'c evaluators \<Rightarrow> ContributionsEntry list \<Rightarrow> 'c registry \<Rightarrow> 'c registry" where
  "entriesNext ev es s = recompute ev (s\<lparr>entries := es, transitions := transitions s @ [es]\<rparr>)"

definition contextNext :: "'c evaluators \<Rightarrow> 'c \<Rightarrow> 'c registry \<Rightarrow> 'c registry" where
  "contextNext ev ctx s = recompute ev (s\<lparr>latestContext := Some ctx\<rparr>)"

definition registerContributions ::
  "'c evaluators \<Rightarrow> ContributionsEntry \<Rightarrow> 'c registry \<Rightarrow> 'c registry \<times> ContributionUnsubscribable" where
  "registerContributions ev e s = (entriesNext ev (entries s @ [e]) s, \<lparr>entry = e\<rparr>)"

definition unsubscribe ::
  "'c evaluators \<Rightarrow> ContributionUnsubscribable \<Rightarrow> 'c registry \<Rightarrow> 'c registry" where
  "unsubscribe ev h s = entriesNext ev (filter (\<lambda>e. ref e \<noteq> ref (entry h)) (entries s)) s"

definition replaceContributions ::
  "'c evaluators \<Rightarrow> ContributionUnsubscribable \<Rightarrow> ContributionsEntry \<Rightarrow> 'c registry
     \<Rightarrow> 'c registry \<times> ContributionUnsubscribable" where
  "replaceContributions ev previous next s =
     (entriesNext ev (filter (\<lambda>e. ref e \<noteq> ref (entry previous)) (entries s) @ [next]) s,
      \<lparr>entry = next\<rparr>)"

text \<open>What a client can do to the registry, and a run of such operations.\<close>

datatype 'c operation =
    Register ContributionsEntry
  | Replace ContributionUnsubscribable ContributionsEntry
  | Unsubscribe ContributionUnsubscribable
  | ContextNext 'c

fun applyOp :: "'c evaluators \<Rightarrow> 'c registry \<Rightarrow> 'c operation \<Rightarrow> 'c registry" where
  "applyOp ev s (Register e) = fst (registerContributions ev e s)"
| "applyOp ev s (Replace previous next) = fst (replaceContributions ev previous next s)"
| "applyOp ev s (Unsubscribe h) = unsubscribe ev h s"
| "applyOp ev s (ContextNext ctx) = contextNext ev ctx s"

definition run :: "'c evaluators \<Rightarrow> 'c registry \<Rightarrow> 'c operation list \<Rightarrow> 'c registry" where
  "run ev s ops = foldl (applyOp ev) s ops"

text \<open>
  An operation hands the registry a fresh entry when the entry object is not in the
  store already (for a replacement: not in the store once the replaced entry is gone).
\<close>

fun freshOp :: "'c registry \<Rightarrow> 'c operation \<Rightarrow> bool" where
  "freshOp s (Register e) = (ref e \<notin> set (map ref (entries s)))"
| "freshOp s (Replace previous next) =
     (ref next \<notin> set (map ref (filter (\<lambda>e. ref e \<noteq> ref (entry previous)) (entries s))))"
| "freshOp s (Unsubscribe h) = True"
| "freshOp s (ContextNext ctx) = True"

fun freshOps :: "'c evaluators \<Rightarrow> 'c registry \<Rightarrow> 'c operation list \<Rightarrow> bool" where
  "freshOps ev s [] = True"
| "freshOps ev s (op # ops) = (freshOp s op \<and> freshOps ev (applyOp ev s op) ops)"

section \<open>Notions used to state the properties\<close>

text \<open>
  A computation \<open>m\<close> follows \<open>(calls, throws, v)\<close> when it either makes exactly the calls
  \<open>calls\<close> and returns \<open>v\<close>, which it does when \<open>throws\<close> is false, or stops with an
  exception after a prefix of \<open>calls\<close>, which it does when \<open>throws\<close> is true.
\<close>

definition follows :: "('c, 'a) traced \<Rightarrow> 'c call list \<Rightarrow> bool \<Rightarrow> 'a \<Rightarrow> bool" where
  "follows m calls throws v =
     (if throws then (\<exists>tr e. m = (tr, Inl e) \<and> prefix tr calls) else m = (calls, Inr v))"

text \<open>
  Filtering, in the words of the specification: an item is kept when it has no \<open>when\<close>
  or \<open>when\<close> evaluates to a truthy value in a child of the context; the evaluator is
  called on the \<open>when\<close> of each item that has one; filtering fails when such a call throws.
\<close>

definition keepItem :: "'c evaluators \<Rightarrow> 'c \<Rightarrow> MenuItemContribution \<Rightarrow> bool" where
  "keepItem ev context item =
     (case when item of
        None \<Rightarrow> True
      | Some w \<Rightarrow> evaluateExpr ev w (createChildContext ev context) = Inr True)"

definition itemCalls :: "'c evaluators \<Rightarrow> 'c \<Rightarrow> MenuItemContribution \<Rightarrow> 'c call list" where
  "itemCalls ev context item =
     (case when item of
        None \<Rightarrow> []
      | Some w \<Rightarrow> [EvaluateExpr w (createChildContext ev context)])"

definition itemThrows :: "'c evaluators \<Rightarrow> 'c \<Rightarrow> MenuItemContribution \<Rightarrow> bool" where
  "itemThrows ev context item =
     (case when item of
        None \<Rightarrow> False
      | Some w \<Rightarrow> isl (evaluateExpr ev w (createChildContext ev context)))"

definition allMenuItems :: "Contributions \<Rightarrow> MenuItemContribution list" where
  "allMenuItems c = (case menus c of None \<Rightarrow> [] | Some m \<Rightarrow> concat (map snd m))"

definition filteredMenus :: "'c evaluators \<Rightarrow> 'c \<Rightarrow> MenuContributions \<Rightarrow> MenuContributions" where
  "filteredMenus ev context m = map (\<lambda>(menu, items). (menu, filter (keepItem ev context) items)) m"

text \<open>
  Interpolation, field by field: a field is interpolated when it is truthy and needs
  evaluation; then it makes two calls and takes the template's value, or throws with it.
  A truthy field that needs no evaluation makes one call; any other field makes none.
\<close>

definition interpolates :: "'c evaluators \<Rightarrow> string option \<Rightarrow> bool" where
  "interpolates ev field = (truthy field \<and> needsEvaluation ev (the field))"

definition fieldCalls :: "'c evaluators \<Rightarrow> 'c \<Rightarrow> string option \<Rightarrow> 'c call list" where
  "fieldCalls ev childContext field =
     (if truthy field
      then NeedsEvaluation (the field) #
             (if needsEvaluation ev (the field) then [EvaluateTemplate (the field) childContext] else [])
      else [])"

definition fieldThrows :: "'c evaluators \<Rightarrow> 'c \<Rightarrow> string option \<Rightarrow> bool" where
  "fieldThrows ev childContext field =
     (interpolates ev field \<and> isl (evaluateTemplate ev (the field) childContext))"

definition interpolated :: "'c evaluators \<Rightarrow> 'c \<Rightarrow> string option \<Rightarrow> error + string option" where
  "interpolated ev childContext field =
     (if interpolates ev field
      then (case evaluateTemplate ev (the field) childContext of
              Inl e \<Rightarrow> Inl e
            | Inr v \<Rightarrow> Inr (Some v))
      else Inr field)"

text \<open>The value of a field after interpolation; the field itself where the template throws
  (then no command is produced at all).\<close>

definition fieldValue :: "'c evaluators \<Rightarrow> 'c \<Rightarrow> string option \<Rightarrow> string option" where
  "fieldValue ev childContext field =
     (case interpolated ev childContext field of Inl e \<Rightarrow> field | Inr v \<Rightarrow> v)"

text \<open>The property \<open>changed.x\<close> that the statement for field \<open>x\<close> leaves behind.\<close>

definition changedField :: "'c evaluators \<Rightarrow> 'c \<Rightarrow> string option \<Rightarrow> string option" where
  "changedField ev childContext field =
     (case interpolated ev childContext field of
        Inl e \<Rightarrow> None
      | Inr v \<Rightarrow> if interpolates ev field then v else None)"

definition actionItemFields :: "ActionItem \<Rightarrow> string option list" where
  "actionItemFields a =
     [label a, ActionItem.description a, group a, ActionItem.iconURL a, iconDescription a]"

definition displayFields :: "CommandContribution \<Rightarrow> string option list" where
  "displayFields cmd =
     [title cmd, category cmd, CommandContribution.description cmd, CommandContribution.iconURL cmd]
     @ (case actionItem cmd of None \<Rightarrow> [] | Some a \<Rightarrow> actionItemFields a)"

definition actionItemValue :: "'c evaluators \<Rightarrow> 'c \<Rightarrow> ActionItem \<Rightarrow> ActionItem" where
  "actionItemValue ev childContext a =
     \<lparr>label = fieldValue ev childContext (label a),
      description = fieldValue ev childContext (ActionItem.description a),
      group = fieldValue ev childContext (group a),
      iconURL = fieldValue ev childContext (ActionItem.iconURL a),
      iconDescription = fieldValue ev childContext (iconDescription a)\<rparr>"

definition commandValue :: "'c evaluators \<Rightarrow> 'c \<Rightarrow> CommandContribution \<Rightarrow> CommandContribution" where
  "commandValue ev childContext cmd =
     \<lparr>CommandContribution.command = CommandContribution.command cmd,
      title = fieldValue ev childContext (title cmd),
      category = fieldValue ev childContext (category cmd),
      description = fieldValue ev childContext (CommandContribution.description cmd),
      iconURL = fieldValue ev childContext (CommandContribution.iconURL cmd),
      actionItem = map_option (actionItemValue ev childContext) (actionItem cmd)\<rparr>"

definition commandCalls :: "'c evaluators \<Rightarrow> 'c \<Rightarrow> CommandContribution \<Rightarrow> 'c call list" where
  "commandCalls ev childContext cmd = concat (map (fieldCalls ev childContext) (displayFields cmd))"

definition commandThrows :: "'c evaluators \<Rightarrow> 'c \<Rightarrow> CommandContribution \<Rightarrow> bool" where
  "commandThrows ev childContext cmd = (\<exists>f \<in> set (displayFields cmd). fieldThrows ev childContext f)"

definition commandInterpolates :: "'c evaluators \<Rightarrow> CommandContribution \<Rightarrow> bool" where
  "commandInterpolates ev cmd = (\<exists>f \<in> set (displayFields cmd). interpolates ev f)"

text \<open>
  The entry store in the words of the specification: registering appends the entry,
  replacing removes the entry the old handle refers to and appends the new one,
  deregistering removes the entry, and a change of context leaves the store alone.
\<close>

fun registeredAfter :: "ContributionsEntry list \<Rightarrow> 'c operation \<Rightarrow> ContributionsEntry list" where
  "registeredAfter es (Register e) = es @ [e]"
| "registeredAfter es (Replace previous next) = filter (\<lambda>e. ref e \<noteq> ref (entry previous)) es @ [next]"
| "registeredAfter es (Unsubscribe h) = filter (\<lambda>e. ref e \<noteq> ref (entry h)) es"
| "registeredAfter es (ContextNext ctx) = es"

text \<open>The entry an operation hands to the registry, if it hands it one.\<close>

fun registeredBy :: "'c operation \<Rightarrow> ContributionsEntry list" where
  "registeredBy (Register e) = [e]"
| "registeredBy (Replace previous next) = [next]"
| "registeredBy (Unsubscribe h) = []"
| "registeredBy (ContextNext ctx) = []"

definition registered :: "'c operation list \<Rightarrow> ContributionsEntry list" where
  "registered ops = foldl registeredAfter [] ops"

text \<open>What one entry contributes to the commands for a context: the commands of its
  filtered and interpolated contributions, or nothing when its evaluation throws.\<close>

definition entryCommands :: "'c evaluators \<Rightarrow> 'c \<Rightarrow> ContributionsEntry \<Rightarrow> CommandContribution list" where
  "entryCommands ev ctx e =
     (case snd (evaluateEntry ev ctx (contributions e)) of
        Inl err \<Rightarrow> []
      | Inr evaluated \<Rightarrow> commandsOf evaluated)"

text \<open>The observer has seen the aggregate of the current entries and context, up to
  deep equality, and nothing before the first context snapshot.\<close>

definition upToDate :: "'c evaluators \<Rightarrow> 'c registry \<Rightarrow> bool" where
  "upToDate ev s =
     (case latestContext s of
        None \<Rightarrow> published s = []
      | Some ctx \<Rightarrow>
          published s \<noteq> [] \<and> isEqual (last (published s)) (aggregate ev ctx (entries s)))"

section \<open>Example inputs\<close>

text \<open>
  Stub evaluators over a context that is just the user's name: expressions are the
  literals \<open>true\<close> and \<open>false\<close> (anything else fails to parse), the one known template
  greets the user, and a string needs evaluation when it contains a dollar sign.
\<close>

definition exampleEvaluators :: "string evaluators" where
  "exampleEvaluators =
     \<lparr>createChildContext = (\<lambda>c. c),
      evaluateExpr = (\<lambda>e c. if e = ''true'' then Inr True
                             else if e = ''false'' then Inr False
                             else Inl (Error ''parse error'')),
      evaluateTemplate = (\<lambda>t c. if t = ''Hello ${user}'' then Inr (''Hello '' @ c)
                                 else Inl (Error ''template error'')),
      needsEvaluation = (\<lambda>t. CHR ''$'' \<in> set t)\<rparr>"

text \<open>
  Stub evaluators that say every string needs evaluation and whose template evaluator
  returns a plain text unchanged.
\<close>

definition eagerEvaluators :: "unit evaluators" where
  "eagerEvaluators =
     \<lparr>createChildContext = (\<lambda>c. c),
      evaluateExpr = (\<lambda>e c. Inr True),
      evaluateTemplate = (\<lambda>t c. if t = [] then Inr ''(empty)'' else Inr t),
      needsEvaluation = (\<lambda>t. True)\<rparr>"

definition exampleCommand :: "string \<Rightarrow> string option \<Rightarrow> CommandContribution" where
  "exampleCommand name t =
     \<lparr>CommandContribution.command = name, title = t, category = None, description = None,
      iconURL = None, actionItem = None\<rparr>"

definition exampleItem :: "string \<Rightarrow> string option \<Rightarrow> MenuItemContribution" where
  "exampleItem name w = \<lparr>MenuItemContribution.command = name, when = w\<rparr>"

definition exampleA :: Contributions where
  "exampleA =
     \<lparr>commands = Some [exampleCommand ''a'' (Some ''Hello ${user}'')],
      menus = Some [(''editor/title'', [exampleItem ''a'' None])]\<rparr>"

definition exampleB :: Contributions where
  "exampleB =
     \<lparr>commands = Some [exampleCommand ''b'' (Some ''Plain'')],
      menus = Some [(''editor/title'', [exampleItem ''b'' (Some ''false''), exampleItem ''b2'' (Some ''true'')]),
                    (''commandPalette'', [exampleItem ''b'' None]),
                    (''help'', [exampleItem ''h'' (Some ''false'')])]\<rparr>"

text \<open>A manifest whose template does not evaluate, and one whose \<open>when\<close> does not parse.\<close>

definition exampleBadTemplate :: Contributions where
  "exampleBadTemplate =
     \<lparr>commands = Some [exampleCommand ''c'' (Some ''Bye ${user}'')],
      menus = Some [(''editor/title'', [exampleItem ''c'' None])]\<rparr>"

definition exampleBadWhen :: Contributions where
  "exampleBadWhen =
     \<lparr>commands = None,
      menus = Some [(''editor/title'', [exampleItem ''d'' (Some ''a &&'')])]\<rparr>"

section \<open>Properties of mergeContributions\<close>

lemma mergeOne_empty_left: "mergeOne emptyContributions c = c"
  by (cases c) (simp add: mergeOne_def emptyContributions_def Let_def split: option.splits)

lemma mergeOne_empty_right: "mergeOne m emptyContributions = m"
  by (simp add: mergeOne_def emptyContributions_def Let_def)

text \<open>The two shortcuts agree with the loop, so the loop describes every length.\<close>

lemma mergeContributions_foldl:
  "mergeContributions cs = foldl mergeOne emptyContributions cs"
  by (simp add: mergeContributions_def mergeOne_empty_left split: list.splits)

lemma commands_mergeOne:
  "commands (mergeOne m c) =
     (case commands c of None \<Rightarrow> commands m
      | Some cs \<Rightarrow> Some ((case commands m of None \<Rightarrow> [] | Some ms \<Rightarrow> ms) @ cs))"
  by (simp add: mergeOne_def Let_def split: option.splits)

lemma commandsOf_mergeOne: "commandsOf (mergeOne m c) = commandsOf m @ commandsOf c"
  by (simp add: commandsOf_def commands_mergeOne split: option.splits)

lemma commands_mergeOne_None:
  "commands (mergeOne m c) = None \<longleftrightarrow> commands m = None \<and> commands c = None"
  by (simp add: commands_mergeOne split: option.splits)

lemma commandsOf_foldl:
  "commandsOf (foldl mergeOne acc cs) = commandsOf acc @ concat (map commandsOf cs)"
  by (induction cs arbitrary: acc) (simp_all add: commandsOf_mergeOne)

lemma commands_foldl_None:
  "commands (foldl mergeOne acc cs) = None \<longleftrightarrow> commands acc = None \<and> (\<forall>c\<in>set cs. commands c = None)"
  by (induction cs arbitrary: acc) (auto simp: commands_mergeOne_None)

lemma map_of_mergeMenuItems:
  "map_of (mergeMenuItems mm (k, items)) k' =
     (if k' = k then Some ((case map_of mm k of None \<Rightarrow> [] | Some old \<Rightarrow> old) @ items) else map_of mm k')"
  by (simp add: mergeMenuItems_def update_conv' split: option.splits)

lemma map_of_foldl_mergeMenuItems:
  "distinct (map fst m) \<Longrightarrow>
   map_of (foldl mergeMenuItems mm m) k = joinItems (map_of mm k) (map_of m k)"
proof (induction m arbitrary: mm)
  case Nil
  then show ?case by (simp add: joinItems_def)
next
  case (Cons e m)
  obtain k' items where e: "e = (k', items)" by (cases e)
  from Cons.prems have d: "distinct (map fst m)" and nin: "k' \<notin> fst ` set m" by (auto simp: e)
  have "map_of m k' = None" using nin by (simp add: map_of_eq_None_iff)
  then show ?case
    using Cons.IH[OF d, of "mergeMenuItems mm (k', items)"]
    by (auto simp: e map_of_mergeMenuItems joinItems_def split: option.splits)
qed

lemma distinct_mergeMenuItems:
  "distinct (map fst mm) \<Longrightarrow> distinct (map fst (mergeMenuItems mm e))"
  by (cases e) (simp add: mergeMenuItems_def distinct_update split: option.splits)

lemma distinct_foldl_mergeMenuItems:
  "distinct (map fst mm) \<Longrightarrow> distinct (map fst (foldl mergeMenuItems mm m))"
  by (induction m arbitrary: mm) (simp_all add: distinct_mergeMenuItems)

lemma menus_mergeOne:
  "menus (mergeOne m c) =
     (case menus c of None \<Rightarrow> menus m
      | Some x \<Rightarrow> (case menus m of None \<Rightarrow> Some x | Some mm \<Rightarrow> Some (foldl mergeMenuItems mm x)))"
  by (simp add: mergeOne_def Let_def split: option.splits)

lemma wellFormed_mergeOne:
  "wellFormed m \<Longrightarrow> wellFormed c \<Longrightarrow> wellFormed (mergeOne m c)"
  by (auto simp: wellFormed_def menus_mergeOne distinct_foldl_mergeMenuItems split: option.splits)

lemma menuLookup_mergeOne:
  "wellFormed c \<Longrightarrow> menuLookup (mergeOne m c) k = joinItems (menuLookup m k) (menuLookup c k)"
  by (auto simp: wellFormed_def menuLookup_def menus_mergeOne map_of_foldl_mergeMenuItems joinItems_def
      split: option.splits)

lemma menus_mergeOne_None:
  "menus (mergeOne m c) = None \<longleftrightarrow> menus m = None \<and> menus c = None"
  by (simp add: menus_mergeOne split: option.splits)

lemma wellFormed_foldl:
  "wellFormed acc \<Longrightarrow> \<forall>c\<in>set cs. wellFormed c \<Longrightarrow> wellFormed (foldl mergeOne acc cs)"
  by (induction cs arbitrary: acc) (simp_all add: wellFormed_mergeOne)

lemma menus_foldl_None:
  "menus (foldl mergeOne acc cs) = None \<longleftrightarrow> menus acc = None \<and> (\<forall>c\<in>set cs. menus c = None)"
  by (induction cs arbitrary: acc) (auto simp: menus_mergeOne_None)

lemma menuLookup_foldl:
  "\<forall>c\<in>set cs. wellFormed c \<Longrightarrow>
   menuLookup (foldl mergeOne acc cs) k = foldl joinItems (menuLookup acc k) (map (\<lambda>c. menuLookup c k) cs)"
  by (induction cs arbitrary: acc) (simp_all add: menuLookup_mergeOne)

lemma foldl_joinItems:
  "foldl joinItems x ys =
     (if x = None \<and> (\<forall>y\<in>set ys. y = None) then None
      else Some ((case x of None \<Rightarrow> [] | Some xs \<Rightarrow> xs) @ concat (map (\<lambda>y. case y of None \<Rightarrow> [] | Some v \<Rightarrow> v) ys)))"
  by (induction ys arbitrary: x) (auto simp: joinItems_def split: option.splits)

lemma menuLookup_emptyContributions: "menuLookup emptyContributions k = None"
  by (simp add: menuLookup_def emptyContributions_def)

lemma commandsOf_emptyContributions: "commandsOf emptyContributions = []"
  by (simp add: commandsOf_def emptyContributions_def)

lemma wellFormed_emptyContributions: "wellFormed emptyContributions"
  by (simp add: wellFormed_def emptyContributions_def)

lemma menuLookup_merge:
  assumes "\<forall>x\<in>set cs. wellFormed x"
  shows "menuLookup (mergeContributions cs) menu =
     (if \<forall>x\<in>set cs. menuLookup x menu = None then None
      else Some (concat (map (\<lambda>x. menuItems x menu) cs)))"
proof -
  have "(\<lambda>y. case y of None \<Rightarrow> [] | Some v \<Rightarrow> v) \<circ> (\<lambda>c. menuLookup c menu) = (\<lambda>x. menuItems x menu)"
    by (rule ext) (simp add: menuItems_def)
  then show ?thesis
    using assms
    by (simp add: mergeContributions_foldl menuLookup_foldl foldl_joinItems
        menuLookup_emptyContributions)
qed

lemma set_fst_mergeMenuItems:
  "fst ` set (mergeMenuItems mm e) = insert (fst e) (fst ` set mm)"
  by (cases e) (simp add: mergeMenuItems_def dom_update split: option.splits)

lemma set_fst_foldl_mergeMenuItems:
  "fst ` set (foldl mergeMenuItems mm m) = fst ` set mm \<union> fst ` set m"
  by (induction m arbitrary: mm) (auto simp: set_fst_mergeMenuItems)

lemma plainKeys_emptyContributions: "plainKeys emptyContributions"
  by (simp add: plainKeys_def emptyContributions_def)

lemma plainKeys_iff:
  "plainKeys c \<longleftrightarrow>
     (case menus c of None \<Rightarrow> True | Some m \<Rightarrow> fst ` set m \<inter> set objectPrototypeKeys = {})"
  by (auto simp: plainKeys_def split: option.splits)

lemma plainKeys_mergeOne:
  "plainKeys m \<Longrightarrow> plainKeys c \<Longrightarrow> plainKeys (mergeOne m c)"
  by (simp add: plainKeys_iff menus_mergeOne set_fst_foldl_mergeMenuItems Int_Un_distrib2
      split: option.splits)

lemma plainKeys_foldl:
  "plainKeys acc \<Longrightarrow> \<forall>c\<in>set cs. plainKeys c \<Longrightarrow> plainKeys (foldl mergeOne acc cs)"
  by (induction cs arbitrary: acc) (simp_all add: plainKeys_mergeOne)

lemma plainKeys_mergeContributions:
  "\<forall>c\<in>set cs. plainKeys c \<Longrightarrow> plainKeys (mergeContributions cs)"
  by (simp add: mergeContributions_foldl plainKeys_foldl plainKeys_emptyContributions)

text \<open>
  C5. Merging no input gives the empty \<open>Contributions\<close>, and merging one input gives that
  input. For any list of inputs (so for two or more) whose menu keys are menu identifiers
  (none of them a property name of \<open>Object.prototype\<close>): the commands of the result are
  the commands of the inputs concatenated in input order, \<open>commands\<close> being absent only
  when it is absent in every input; \<open>menus\<close> is absent only when it is absent in every
  input; no key of the result is a property name of \<open>Object.prototype\<close>; and, the keys of
  each input being unique, each key that some input has is mapped to the concatenation,
  in input order, of the inputs' items under that key, while a key that no input has stays
  absent. The merge is a function of its argument alone.
\<close>

theorem mergeContributions_spec:
  "mergeContributions [] = emptyContributions \<and>
   mergeContributions [c] = c \<and>
   ((\<forall>x\<in>set cs. plainKeys x) \<longrightarrow>
      commandsOf (mergeContributions cs) = concat (map commandsOf cs) \<and>
      (commands (mergeContributions cs) = None \<longleftrightarrow> (\<forall>x\<in>set cs. commands x = None)) \<and>
      (menus (mergeContributions cs) = None \<longleftrightarrow> (\<forall>x\<in>set cs. menus x = None)) \<and>
      plainKeys (mergeContributions cs) \<and>
      ((\<forall>x\<in>set cs. wellFormed x) \<longrightarrow>
         (\<forall>menu. menuLookup (mergeContributions cs) menu =
            (if \<forall>x\<in>set cs. menuLookup x menu = None then None
             else Some (concat (map (\<lambda>x. menuItems x menu) cs))))))"
proof -
  have 1: "mergeContributions [] = emptyContributions"
    by (simp add: mergeContributions_def)
  have 2: "mergeContributions [c] = c"
    by (simp add: mergeContributions_def)
  have 3: "commandsOf (mergeContributions cs) = concat (map commandsOf cs)"
    by (simp add: mergeContributions_foldl commandsOf_foldl commandsOf_emptyContributions)
  have 4: "commands (mergeContributions cs) = None \<longleftrightarrow> (\<forall>x\<in>set cs. commands x = None)"
    by (simp add: mergeContributions_foldl commands_foldl_None emptyContributions_def)
  have 5: "menus (mergeContributions cs) = None \<longleftrightarrow> (\<forall>x\<in>set cs. menus x = None)"
    by (simp add: mergeContributions_foldl menus_foldl_None emptyContributions_def)
  have 6: "plainKeys (mergeContributions cs)" if "\<forall>x\<in>set cs. plainKeys x"
    using that by (rule plainKeys_mergeContributions)
  have 7: "\<forall>menu. menuLookup (mergeContributions cs) menu =
            (if \<forall>x\<in>set cs. menuLookup x menu = None then None
             else Some (concat (map (\<lambda>x. menuItems x menu) cs)))"
    if "\<forall>x\<in>set cs. wellFormed x"
    using menuLookup_merge[OF that] by blast
  show ?thesis
    using 1 2 3 4 5 6 7 by blast
qed

theorem mergeContributions_spec_witness:
  "plainKeys exampleA \<and> plainKeys exampleB \<and>
   wellFormed exampleA \<and> wellFormed exampleB \<and>
   mergeContributions [exampleA] = exampleA \<and>
   commandsOf (mergeContributions [exampleA, exampleB])
     = [exampleCommand ''a'' (Some ''Hello ${user}''), exampleCommand ''b'' (Some ''Plain'')] \<and>
   menuLookup (mergeContributions [exampleA, exampleB]) ''editor/title''
     = Some [exampleItem ''a'' None, exampleItem ''b'' (Some ''false''), exampleItem ''b2'' (Some ''true'')] \<and>
   menuLookup (mergeContributions [exampleA, exampleB]) ''commandPalette''
     = Some [exampleItem ''b'' None] \<and>
   menuLookup (mergeContributions [exampleA, exampleB]) ''scm/title'' = None"
proof -
  have p: "plainKeys exampleA" "plainKeys exampleB"
    by (simp_all add: plainKeys_def objectPrototypeKeys_def exampleA_def exampleB_def)
  have w: "wellFormed exampleA" "wellFormed exampleB"
    by (simp_all add: wellFormed_def exampleA_def exampleB_def)
  have pa: "\<forall>x\<in>set [exampleA, exampleB]. plainKeys x" using p by simp
  have wa: "\<forall>x\<in>set [exampleA, exampleB]. wellFormed x" using w by simp
  show ?thesis
    using p w pa wa mergeContributions_spec [of exampleA "[exampleA, exampleB]"]
    by (simp add: menuLookup_def menuItems_def commandsOf_def exampleA_def exampleB_def)
qed

section \<open>Deep equality and the algebra of the merge\<close>


lemma menusEqual_iff: "menusEqual x y \<longleftrightarrow> map_of x = map_of y"
proof
  assume h: "menusEqual x y"
  show "map_of x = map_of y"
  proof (rule ext)
    fix k
    show "map_of x k = map_of y k"
    proof (cases "k \<in> set (map fst x) \<union> set (map fst y)")
      case True
      then show ?thesis using h by (simp add: menusEqual_def)
    next
      case False
      then have "map_of x k = None" "map_of y k = None"
        by (simp_all add: map_of_eq_None_iff)
      then show ?thesis by simp
    qed
  qed
next
  assume "map_of x = map_of y"
  then show "menusEqual x y" by (simp add: menusEqual_def)
qed

lemma isEqual_refl: "isEqual a a"
  by (simp add: isEqual_def menusEqual_iff split: option.splits)

lemma isEqual_sym: "isEqual a b \<Longrightarrow> isEqual b a"
  by (auto simp: isEqual_def menusEqual_iff split: option.splits)

lemma isEqual_trans: "isEqual a b \<Longrightarrow> isEqual b c \<Longrightarrow> isEqual a c"
  by (auto simp: isEqual_def menusEqual_iff split: option.splits)

lemma isEqual_commands: "isEqual a b \<Longrightarrow> commands a = commands b"
  by (simp add: isEqual_def)

lemma isEqualI:
  assumes "commands a = commands b"
    and "menus a = None \<longleftrightarrow> menus b = None"
    and "\<And>k. menuLookup a k = menuLookup b k"
  shows "isEqual a b"
proof (cases "menus a")
  case None
  then show ?thesis using assms by (simp add: isEqual_def)
next
  case (Some x)
  then obtain y where y: "menus b = Some y" using assms(2) by auto
  have "map_of x = map_of y"
    using assms(3) by (simp add: menuLookup_def Some y fun_eq_iff)
  then show ?thesis using assms(1) by (simp add: isEqual_def Some y menusEqual_iff)
qed

lemma commands_by_commandsOf:
  "commands c = (if commands c = None then None else Some (commandsOf c))"
  by (simp add: commandsOf_def split: option.splits)

lemma concat_map_concat:
  "concat (map f (concat gs)) = concat (map (\<lambda>g. concat (map f g)) gs)"
  by (induction gs) simp_all

lemma mergeContributions_drop_empty:
  "mergeContributions (xs @ emptyContributions # ys) = mergeContributions (xs @ ys)"
  by (simp add: mergeContributions_foldl mergeOne_empty_right)

lemma wellFormed_mergeContributions:
  "\<forall>c\<in>set cs. wellFormed c \<Longrightarrow> wellFormed (mergeContributions cs)"
  by (simp add: mergeContributions_foldl wellFormed_foldl wellFormed_emptyContributions)

lemma menuItems_merge:
  "\<forall>c\<in>set cs. wellFormed c \<Longrightarrow>
   menuItems (mergeContributions cs) k = concat (map (\<lambda>c. menuItems c k) cs)"
  by (auto simp: menuItems_def[of "mergeContributions cs"] menuLookup_merge)
     (simp add: menuItems_def)

lemma menuLookup_merge_None:
  "\<forall>c\<in>set cs. wellFormed c \<Longrightarrow>
   menuLookup (mergeContributions cs) k = None \<longleftrightarrow> (\<forall>c\<in>set cs. menuLookup c k = None)"
  by (simp add: menuLookup_merge)

lemma commands_merge_groups:
  "commands (mergeContributions (map mergeContributions gs)) = commands (mergeContributions (concat gs))"
proof -
  have n: "commands (mergeContributions (map mergeContributions gs)) = None
        \<longleftrightarrow> commands (mergeContributions (concat gs)) = None"
    by (auto simp: mergeContributions_foldl commands_foldl_None emptyContributions_def)
  have c: "commandsOf (mergeContributions (map mergeContributions gs))
         = commandsOf (mergeContributions (concat gs))"
    by (simp add: mergeContributions_foldl commandsOf_foldl commandsOf_emptyContributions
        concat_map_concat comp_def)
  show ?thesis
    using n c commands_by_commandsOf[of "mergeContributions (map mergeContributions gs)"]
      commands_by_commandsOf[of "mergeContributions (concat gs)"]
    by (simp split: if_splits)
qed

lemma menus_merge_groups_None:
  "menus (mergeContributions (map mergeContributions gs)) = None
     \<longleftrightarrow> menus (mergeContributions (concat gs)) = None"
  by (auto simp: mergeContributions_foldl menus_foldl_None emptyContributions_def)

lemma menuLookup_merge_groups:
  assumes wf: "\<forall>c\<in>set (concat gs). wellFormed c"
  shows "menuLookup (mergeContributions (map mergeContributions gs)) k
       = menuLookup (mergeContributions (concat gs)) k"
proof -
  have wfg: "\<forall>g\<in>set gs. \<forall>c\<in>set g. wellFormed c" using wf by auto
  then have wfm: "\<forall>x\<in>set (map mergeContributions gs). wellFormed x"
    by (auto intro: wellFormed_mergeContributions)
  have none: "(\<forall>x\<in>set (map mergeContributions gs). menuLookup x k = None)
          \<longleftrightarrow> (\<forall>c\<in>set (concat gs). menuLookup c k = None)"
    using wfg by (auto simp: menuLookup_merge_None)
  have "map (\<lambda>x. menuItems x k) (map mergeContributions gs)
      = map (\<lambda>g. concat (map (\<lambda>c. menuItems c k) g)) gs"
    using wfg by (simp add: menuItems_merge)
  then have items: "concat (map (\<lambda>x. menuItems x k) (map mergeContributions gs))
      = concat (map (\<lambda>c. menuItems c k) (concat gs))"
    by (simp only: concat_map_concat)
  show ?thesis
    unfolding menuLookup_merge[OF wfm] menuLookup_merge[OF wf] none items ..
qed

lemma commandsOf_mergeContributions:
  "commandsOf (mergeContributions cs) = concat (map commandsOf cs)"
  by (simp add: mergeContributions_foldl commandsOf_foldl commandsOf_emptyContributions)

text \<open>
  C6. The empty \<open>Contributions\<close> is an identity of the merge at any position of the list
  (the results are identical, so deep-equal). Merging consecutive groups and then the
  group results is deep-equal to merging the whole list at once, for inputs whose menu
  keys are unique menu identifiers (none of them a property name of \<open>Object.prototype\<close>);
  the group results then have such keys too. The merge is not commutative: swapping the
  two example inputs changes the result.
\<close>

theorem mergeContributions_monoid:
  "mergeContributions (xs @ emptyContributions # ys) = mergeContributions (xs @ ys) \<and>
   isEqual (mergeContributions (xs @ emptyContributions # ys)) (mergeContributions (xs @ ys)) \<and>
   ((\<forall>c\<in>set (concat gs). wellFormed c \<and> plainKeys c) \<longrightarrow>
      (\<forall>g\<in>set gs. wellFormed (mergeContributions g) \<and> plainKeys (mergeContributions g)) \<and>
      isEqual (mergeContributions (map mergeContributions gs)) (mergeContributions (concat gs))) \<and>
   \<not> isEqual (mergeContributions [exampleA, exampleB]) (mergeContributions [exampleB, exampleA])"
proof -
  have id: "mergeContributions (xs @ emptyContributions # ys) = mergeContributions (xs @ ys)"
    by (rule mergeContributions_drop_empty)
  have assoc: "isEqual (mergeContributions (map mergeContributions gs)) (mergeContributions (concat gs))"
    if "\<forall>c\<in>set (concat gs). wellFormed c"
    by (rule isEqualI) (simp_all only: commands_merge_groups menus_merge_groups_None
        menuLookup_merge_groups[OF that])
  have groups: "\<forall>g\<in>set gs. wellFormed (mergeContributions g) \<and> plainKeys (mergeContributions g)"
    if "\<forall>c\<in>set (concat gs). wellFormed c \<and> plainKeys c"
    using that by (auto intro: wellFormed_mergeContributions plainKeys_mergeContributions)
  have ncomm: "\<not> isEqual (mergeContributions [exampleA, exampleB]) (mergeContributions [exampleB, exampleA])"
    by (simp add: isEqual_def mergeContributions_def mergeOne_def Let_def emptyContributions_def
        exampleA_def exampleB_def exampleCommand_def)
  have both: "(\<forall>c\<in>set (concat gs). wellFormed c \<and> plainKeys c) \<longrightarrow>
      (\<forall>g\<in>set gs. wellFormed (mergeContributions g) \<and> plainKeys (mergeContributions g)) \<and>
      isEqual (mergeContributions (map mergeContributions gs)) (mergeContributions (concat gs))"
    using assoc groups by blast
  show ?thesis using id both ncomm by (simp only: isEqual_refl simp_thms)
qed

theorem mergeContributions_monoid_witness:
  "wellFormed exampleA \<and> wellFormed exampleB \<and> wellFormed exampleBadTemplate \<and>
   plainKeys exampleA \<and> plainKeys exampleB \<and> plainKeys exampleBadTemplate \<and>
   isEqual (mergeContributions [mergeContributions [exampleA, exampleB], mergeContributions [],
                                mergeContributions [exampleBadTemplate]])
           (mergeContributions [exampleA, exampleB, exampleBadTemplate]) \<and>
   commandsOf (mergeContributions [exampleA, exampleB, exampleBadTemplate])
     = [exampleCommand ''a'' (Some ''Hello ${user}''), exampleCommand ''b'' (Some ''Plain''),
        exampleCommand ''c'' (Some ''Bye ${user}'')]"
proof -
  have w: "wellFormed exampleA" "wellFormed exampleB" "wellFormed exampleBadTemplate"
    by (simp_all add: wellFormed_def exampleA_def exampleB_def exampleBadTemplate_def)
  have p: "plainKeys exampleA" "plainKeys exampleB" "plainKeys exampleBadTemplate"
    by (simp_all add: plainKeys_def objectPrototypeKeys_def exampleA_def exampleB_def
        exampleBadTemplate_def)
  have h: "\<forall>c\<in>set (concat [[exampleA, exampleB], [], [exampleBadTemplate]]). wellFormed c \<and> plainKeys c"
    using w p by simp
  have e: "isEqual (mergeContributions [mergeContributions [exampleA, exampleB], mergeContributions [],
                                mergeContributions [exampleBadTemplate]])
           (mergeContributions [exampleA, exampleB, exampleBadTemplate])"
    using mergeContributions_monoid [of "[]" "[]" "[[exampleA, exampleB], [], [exampleBadTemplate]]"] h
    by simp
  have c: "commandsOf (mergeContributions [exampleA, exampleB, exampleBadTemplate])
     = [exampleCommand ''a'' (Some ''Hello ${user}''), exampleCommand ''b'' (Some ''Plain''),
        exampleCommand ''c'' (Some ''Bye ${user}'')]"
    by (simp add: commandsOf_mergeContributions,
        simp add: commandsOf_def exampleA_def exampleB_def exampleBadTemplate_def)
  show ?thesis using w p e c by simp
qed

section \<open>Computations that make calls and may throw\<close>

lemma follows_ret: "follows (ret v) [] False v"
  by (simp add: follows_def ret_def)

lemma follows_andThen:
  assumes "follows m c1 t1 v1" and "follows (f v1) c2 t2 v2"
  shows "follows (andThen m f) (c1 @ c2) (t1 \<or> t2) v2"
proof (cases t1)
  case True
  then obtain tr e where "m = (tr, Inl e)" "prefix tr c1"
    using assms(1) by (auto simp: follows_def)
  then show ?thesis using True by (auto simp: follows_def andThen_def)
next
  case False
  then have m: "m = (c1, Inr v1)" using assms(1) by (simp add: follows_def)
  show ?thesis
  proof (cases t2)
    case True
    then obtain tr e where "f v1 = (tr, Inl e)" "prefix tr c2"
      using assms(2) by (auto simp: follows_def)
    then show ?thesis using True m by (auto simp: follows_def andThen_def)
  next
    case f2: False
    then have "f v1 = (c2, Inr v2)" using assms(2) by (simp add: follows_def)
    then show ?thesis using False f2 m by (simp add: follows_def andThen_def)
  qed
qed

lemma follows_cong:
  "follows m c t v \<Longrightarrow> c = c' \<Longrightarrow> t = t' \<Longrightarrow> (\<not> t \<Longrightarrow> v = v') \<Longrightarrow> follows m c' t' v'"
  by (auto simp: follows_def)

lemma follows_result:
  "follows m c t v \<Longrightarrow> m = (tr, r) \<Longrightarrow>
     prefix tr c \<and> (case r of Inl e \<Rightarrow> t | Inr x \<Rightarrow> \<not> t \<and> tr = c \<and> x = v)"
  by (auto simp: follows_def split: if_splits)

lemma follows_returnsD: "follows m c t v \<Longrightarrow> \<not> t \<Longrightarrow> m = (c, Inr v)"
  by (simp add: follows_def)

lemma follows_throwsD: "follows m c t v \<Longrightarrow> t \<Longrightarrow> \<exists>tr e. m = (tr, Inl e) \<and> prefix tr c"
  by (simp add: follows_def)

section \<open>Properties of contextFilter and filterContributions\<close>

lemma follows_callEvaluateExpr:
  "follows (callEvaluateExpr ev w cc) [EvaluateExpr w cc] (isl (evaluateExpr ev w cc))
     (evaluateExpr ev w cc = Inr True)"
  by (cases "evaluateExpr ev w cc") (auto simp: follows_def callEvaluateExpr_def)

lemma follows_contextFilterLoop:
  "follows (contextFilterLoop ev context items keep)
     (concat (map (itemCalls ev context) items))
     (\<exists>item\<in>set items. itemThrows ev context item)
     (keep @ filter (keepItem ev context) items)"
proof (induction items arbitrary: keep)
  case Nil
  show ?case by (simp add: follows_ret)
next
  case (Cons item items)
  show ?case
  proof (cases "when item")
    case None
    then show ?thesis
      using Cons.IH[of "keep @ [item]"]
      by (simp add: itemCalls_def[of ev "context" item] itemThrows_def[of ev "context" item]
          keepItem_def[of ev "context" item])
  next
    case (Some w)
    let ?cc = "createChildContext ev context"
    let ?b = "evaluateExpr ev w ?cc = Inr True"
    have step: "follows (if \<not> ?b then contextFilterLoop ev context items keep
                  else contextFilterLoop ev context items (keep @ [item]))
        (concat (map (itemCalls ev context) items))
        (\<exists>item\<in>set items. itemThrows ev context item)
        (keep @ filter (keepItem ev context) (item # items))"
    proof -
      have k: "keepItem ev context item = ?b" by (simp add: keepItem_def Some)
      show ?thesis
        using Cons.IH[of keep] Cons.IH[of "keep @ [item]"] by (simp add: k)
    qed
    have c: "itemCalls ev context item = [EvaluateExpr w ?cc]"
      by (simp add: itemCalls_def Some)
    have t: "itemThrows ev context item = isl (evaluateExpr ev w ?cc)"
      by (simp add: itemThrows_def Some)
    show ?thesis
      using follows_andThen[OF follows_callEvaluateExpr[of ev w "?cc"], of
          "\<lambda>b. if \<not> b then contextFilterLoop ev context items keep
                 else contextFilterLoop ev context items (keep @ [item])", OF step]
      by (simp add: Some c t)
  qed
qed

lemma follows_contextFilter:
  "follows (contextFilter ev context items)
     (concat (map (itemCalls ev context) items))
     (\<exists>item\<in>set items. itemThrows ev context item)
     (filter (keepItem ev context) items)"
  using follows_contextFilterLoop[of ev "context" items "[]"] by (simp add: contextFilter_def)

lemma update_fresh: "k \<notin> fst ` set al \<Longrightarrow> AList.update k v al = al @ [(k, v)]"
  by (induction al) auto

lemma follows_filterMenusLoop:
  "distinct (map fst m) \<Longrightarrow> fst ` set m \<inter> fst ` set acc = {} \<Longrightarrow>
   follows (filterMenusLoop ev context m acc)
     (concat (map (itemCalls ev context) (concat (map snd m))))
     (\<exists>item\<in>set (concat (map snd m)). itemThrows ev context item)
     (acc @ filteredMenus ev context m)"
proof (induction m arbitrary: acc)
  case Nil
  show ?case by (simp add: follows_ret filteredMenus_def)
next
  case (Cons e m)
  obtain menu items where e: "e = (menu, items)" by (cases e)
  let ?kept = "filter (keepItem ev context) items"
  have fresh: "menu \<notin> fst ` set acc" and d: "distinct (map fst m)"
    and nin: "menu \<notin> fst ` set m" and disj: "fst ` set m \<inter> fst ` set acc = {}"
    using Cons.prems by (auto simp: e)
  have upd: "AList.update menu ?kept acc = acc @ [(menu, ?kept)]"
    using fresh by (rule update_fresh)
  have "fst ` set m \<inter> fst ` set (acc @ [(menu, ?kept)]) = {}"
    using disj nin by auto
  from Cons.IH[OF d this]
  have rest: "follows (filterMenusLoop ev context m (AList.update menu ?kept acc))
     (concat (map (itemCalls ev context) (concat (map snd m))))
     (\<exists>item\<in>set (concat (map snd m)). itemThrows ev context item)
     (acc @ filteredMenus ev context (e # m))"
    by (simp add: upd e filteredMenus_def)
  show ?case
    using follows_andThen[OF follows_contextFilter[of ev "context" items], of
        "\<lambda>kept. filterMenusLoop ev context m (AList.update menu kept acc)", OF rest]
    by (simp add: e bex_Un)
qed

lemma follows_filterContributions:
  assumes "wellFormed c"
  shows "follows (filterContributions ev context c)
     (concat (map (itemCalls ev context) (allMenuItems c)))
     (\<exists>item\<in>set (allMenuItems c). itemThrows ev context item)
     (c\<lparr>menus := map_option (filteredMenus ev context) (menus c)\<rparr>)"
proof (cases "menus c")
  case None
  then have eq: "c\<lparr>menus := None\<rparr> = c" by (cases c) simp
  show ?thesis by (simp add: filterContributions_def allMenuItems_def follows_ret None eq)
next
  case (Some m)
  then have d: "distinct (map fst m)" using assms by (simp add: wellFormed_def)
  have loop: "follows (filterMenusLoop ev context m [])
     (concat (map (itemCalls ev context) (concat (map snd m))))
     (\<exists>item\<in>set (concat (map snd m)). itemThrows ev context item)
     (filteredMenus ev context m)"
    using follows_filterMenusLoop[OF d, of "[]" ev "context"] by simp
  have "follows (ret (c\<lparr>menus := Some (filteredMenus ev context m)\<rparr>)) [] False
          (c\<lparr>menus := Some (filteredMenus ev context m)\<rparr>)"
    by (rule follows_ret)
  from follows_andThen[OF loop, of "\<lambda>fm. ret (c\<lparr>menus := Some fm\<rparr>)", OF this]
  show ?thesis by (simp add: filterContributions_def Some allMenuItems_def)
qed

section \<open>Properties of evaluateContributions\<close>

lemma follows_evaluateField:
  "follows (evaluateField ev cc f) (fieldCalls ev cc f) (fieldThrows ev cc f) (changedField ev cc f)"
proof (cases "truthy f")
  case False
  then show ?thesis
    by (simp add: evaluateField_def fieldCalls_def fieldThrows_def changedField_def
        interpolates_def interpolated_def follows_ret)
next
  case True
  show ?thesis
  proof (cases "needsEvaluation ev (the f)")
    case False
    then show ?thesis
      using True
      by (simp add: evaluateField_def fieldCalls_def fieldThrows_def changedField_def
          interpolates_def interpolated_def follows_def andThen_def callNeedsEvaluation_def ret_def)
  next
    case n: True
    show ?thesis
      using True n
      by (cases "evaluateTemplate ev (the f) cc")
         (simp_all add: evaluateField_def fieldCalls_def fieldThrows_def changedField_def
          interpolates_def interpolated_def follows_def andThen_def callNeedsEvaluation_def
          callEvaluateTemplate_def ret_def)
  qed
qed

lemma spread_changedField: "spread f (changedField ev cc f) = fieldValue ev cc f"
  by (simp add: spread_def changedField_def fieldValue_def interpolated_def
      split: sum.splits option.splits)

lemma changedField_None:
  "\<not> fieldThrows ev cc f \<Longrightarrow> changedField ev cc f = None \<longleftrightarrow> \<not> interpolates ev f"
  by (cases "evaluateTemplate ev (the f) cc")
     (auto simp: changedField_def fieldThrows_def interpolated_def)

lemma changedField_Some:
  "\<not> fieldThrows ev cc f \<Longrightarrow> (\<exists>y. changedField ev cc f = Some y) \<longleftrightarrow> interpolates ev f"
  using changedField_None[of ev cc f] by (cases "changedField ev cc f") auto

lemma fieldValue_unchanged: "\<not> interpolates ev f \<Longrightarrow> fieldValue ev cc f = f"
  by (simp add: fieldValue_def interpolated_def)

lemma follows_evaluateActionItem:
  "follows (evaluateActionItem ev cc a)
     (concat (map (fieldCalls ev cc) (actionItemFields a)))
     (\<exists>f\<in>set (actionItemFields a). fieldThrows ev cc f)
     (if \<exists>f\<in>set (actionItemFields a). interpolates ev f then Some (actionItemValue ev cc a) else None)"
  unfolding evaluateActionItem_def
  apply (rule follows_cong)
     apply (rule follows_andThen[OF follows_evaluateField])+
     apply (rule follows_ret)
    apply (simp add: actionItemFields_def)
   apply (simp add: actionItemFields_def)
  apply (simp add: actionItemFields_def changedField_None changedField_Some spread_changedField
      actionItemValue_def)
  done

lemma actionItemValue_unchanged:
  "\<not> (\<exists>f\<in>set (actionItemFields a). interpolates ev f) \<Longrightarrow> actionItemValue ev cc a = a"
  by (simp add: actionItemValue_def actionItemFields_def fieldValue_unchanged)

lemma follows_changedActionItem:
  "follows (case actionItem cmd of None \<Rightarrow> ret None | Some a \<Rightarrow> evaluateActionItem ev cc a)
     (case actionItem cmd of None \<Rightarrow> [] | Some a \<Rightarrow> concat (map (fieldCalls ev cc) (actionItemFields a)))
     (case actionItem cmd of None \<Rightarrow> False | Some a \<Rightarrow> \<exists>f\<in>set (actionItemFields a). fieldThrows ev cc f)
     (case actionItem cmd of None \<Rightarrow> None
      | Some a \<Rightarrow> if \<exists>f\<in>set (actionItemFields a). interpolates ev f
                  then Some (actionItemValue ev cc a) else None)"
  by (cases "actionItem cmd") (simp_all add: follows_ret follows_evaluateActionItem)

lemma commandValue_unchanged:
  "\<not> commandInterpolates ev cmd \<Longrightarrow> commandValue ev cc cmd = cmd"
  by (cases "actionItem cmd")
     (simp_all add: commandInterpolates_def displayFields_def commandValue_def fieldValue_unchanged
       actionItemValue_unchanged)

lemma spread_changedActionItem:
  "spread (actionItem cmd)
     (case actionItem cmd of None \<Rightarrow> None
      | Some a \<Rightarrow> if \<exists>f\<in>set (actionItemFields a). interpolates ev f
                  then Some (actionItemValue ev cc a) else None)
   = map_option (actionItemValue ev cc) (actionItem cmd)"
  by (cases "actionItem cmd") (simp_all add: spread_def actionItemValue_unchanged)

lemma changedActionItem_None:
  "(case actionItem cmd of None \<Rightarrow> None
      | Some a \<Rightarrow> if \<exists>f\<in>set (actionItemFields a). interpolates ev f
                  then Some (actionItemValue ev cc a) else None) = None
   \<longleftrightarrow> \<not> (\<exists>f\<in>set (case actionItem cmd of None \<Rightarrow> [] | Some a \<Rightarrow> actionItemFields a). interpolates ev f)"
  by (cases "actionItem cmd") simp_all

lemma follows_evaluateCommand:
  "follows (evaluateCommand ev context cmd)
     (commandCalls ev (createChildContext ev context) cmd)
     (commandThrows ev (createChildContext ev context) cmd)
     (commandInterpolates ev cmd, commandValue ev (createChildContext ev context) cmd)"
  unfolding evaluateCommand_def Let_def
  apply (rule follows_cong)
     apply (rule follows_andThen[OF follows_evaluateField])+
     apply (rule follows_andThen[OF follows_changedActionItem])
     apply (rule follows_ret)
  subgoal by (simp add: commandCalls_def displayFields_def split: option.splits)
  subgoal by (auto simp: commandThrows_def displayFields_def split: option.splits)
  subgoal
    using commandValue_unchanged[of ev cmd "createChildContext ev context"]
    by (simp add: changedActionItem_None changedField_None spread_changedField
        spread_changedActionItem commandInterpolates_def displayFields_def commandValue_def
        del: not_None_eq)
  done

lemma follows_evaluateCommandsLoop:
  "follows (evaluateCommandsLoop ev context cmds acc)
     (concat (map (commandCalls ev (createChildContext ev context)) cmds))
     (\<exists>cmd\<in>set cmds. commandThrows ev (createChildContext ev context) cmd)
     (acc @ map (commandValue ev (createChildContext ev context)) cmds)"
proof (induction cmds arbitrary: acc)
  case Nil
  show ?case by (simp add: follows_ret)
next
  case (Cons cmd cmds)
  let ?cc = "createChildContext ev context"
  have rest: "follows (evaluateCommandsLoop ev context cmds
                 (acc @ [snd (commandInterpolates ev cmd, commandValue ev ?cc cmd)]))
     (concat (map (commandCalls ev ?cc) cmds))
     (\<exists>cmd\<in>set cmds. commandThrows ev ?cc cmd)
     (acc @ map (commandValue ev ?cc) (cmd # cmds))"
    using Cons.IH[of "acc @ [commandValue ev ?cc cmd]"] by simp
  show ?case
    using follows_andThen[OF follows_evaluateCommand[of ev "context" cmd], of
        "\<lambda>r. evaluateCommandsLoop ev context cmds (acc @ [snd r])", OF rest]
    by simp
qed

lemma follows_evaluateContributions:
  "follows (evaluateContributions ev context c)
     (concat (map (commandCalls ev (createChildContext ev context)) (commandsOf c)))
     (\<exists>cmd\<in>set (commandsOf c). commandThrows ev (createChildContext ev context) cmd)
     (c\<lparr>commands := map_option (map (commandValue ev (createChildContext ev context))) (commands c)\<rparr>)"
proof (cases "commands c")
  case None
  then have eq: "c\<lparr>commands := None\<rparr> = c" by (cases c) simp
  show ?thesis by (simp add: evaluateContributions_def commandsOf_def follows_ret None eq)
next
  case (Some cmds)
  let ?cc = "createChildContext ev context"
  show ?thesis
  proof (cases "cmds = []")
    case True
    then have eq: "c\<lparr>commands := Some []\<rparr> = c" using Some by (cases c) simp
    show ?thesis by (simp add: evaluateContributions_def commandsOf_def follows_ret Some True eq)
  next
    case False
    have "follows (ret (c\<lparr>commands := Some (map (commandValue ev ?cc) cmds)\<rparr>)) [] False
            (c\<lparr>commands := Some (map (commandValue ev ?cc) cmds)\<rparr>)"
      by (rule follows_ret)
    from follows_andThen[OF follows_evaluateCommandsLoop[of ev "context" cmds "[]"],
        of "\<lambda>ecs. ret (c\<lparr>commands := Some ecs\<rparr>)", simplified, OF this]
    show ?thesis using False by (simp add: evaluateContributions_def commandsOf_def Some)
  qed
qed

lemma menus_evaluateContributions:
  assumes "evaluateContributions ev context c = (tr, Inr c')"
  shows "menus c' = menus c"
  using follows_result[OF follows_evaluateContributions assms] by simp

lemma evaluateEntry_after_filter:
  "filterContributions ev context c = (tr, Inr c') \<Longrightarrow>
   evaluateEntry ev context c = (case evaluateContributions ev context c' of (tr2, r) \<Rightarrow> (tr @ tr2, r))"
  by (simp add: evaluateEntry_def andThen_def)

text \<open>
  C3. For contributions whose menu keys are unique menu identifiers (none of them a
  property name of \<open>Object.prototype\<close>): when no \<open>when\<close> expression throws,
  filtering returns the contributions with every menu key kept and, under each key,
  exactly the items that have no \<open>when\<close> or whose \<open>when\<close> evaluates to a truthy value
  in a child of the context, unchanged and in their original order (a key whose items
  are all dropped stays, with no items); the only calls it makes are \<open>evaluateExpr\<close> on
  the raw \<open>when\<close> strings, item by item. When some \<open>when\<close> throws, filtering throws
  after a prefix of those calls. In the evaluation of an entry the calls of the filter
  come before every call of the interpolation, and interpolation returns the menus, and
  so every \<open>when\<close>, as the filter left them: no \<open>when\<close> is ever template-interpolated.
\<close>

theorem filterContributions_spec:
  assumes "wellFormed c" and "plainKeys c"
  shows
   "((\<forall>item\<in>set (allMenuItems c). \<not> itemThrows ev context item) \<longrightarrow>
       filterContributions ev context c =
         (concat (map (itemCalls ev context) (allMenuItems c)),
          Inr (c\<lparr>menus := map_option
                  (map (\<lambda>(menu, items). (menu, filter (keepItem ev context) items))) (menus c)\<rparr>))) \<and>
    ((\<exists>item\<in>set (allMenuItems c). itemThrows ev context item) \<longrightarrow>
       (\<exists>tr e. filterContributions ev context c = (tr, Inl e) \<and>
                prefix tr (concat (map (itemCalls ev context) (allMenuItems c))))) \<and>
    (\<forall>tr c'. filterContributions ev context c = (tr, Inr c') \<longrightarrow>
       evaluateEntry ev context c =
         (case evaluateContributions ev context c' of (tr2, r) \<Rightarrow> (tr @ tr2, r))) \<and>
    (\<forall>tr2 c' c''. evaluateContributions ev context c' = (tr2, Inr c'') \<longrightarrow> menus c'' = menus c')"
proof -
  have f: "follows (filterContributions ev context c)
     (concat (map (itemCalls ev context) (allMenuItems c)))
     (\<exists>item\<in>set (allMenuItems c). itemThrows ev context item)
     (c\<lparr>menus := map_option (filteredMenus ev context) (menus c)\<rparr>)"
    using assms(1) by (rule follows_filterContributions)
  have fm: "filteredMenus ev context = map (\<lambda>(menu, items). (menu, filter (keepItem ev context) items))"
    by (rule ext) (simp add: filteredMenus_def)
  have 1: "(\<forall>item\<in>set (allMenuItems c). \<not> itemThrows ev context item) \<longrightarrow>
       filterContributions ev context c =
         (concat (map (itemCalls ev context) (allMenuItems c)),
          Inr (c\<lparr>menus := map_option
                  (map (\<lambda>(menu, items). (menu, filter (keepItem ev context) items))) (menus c)\<rparr>))"
    using follows_returnsD[OF f] unfolding fm by blast
  have 2: "(\<exists>item\<in>set (allMenuItems c). itemThrows ev context item) \<longrightarrow>
       (\<exists>tr e. filterContributions ev context c = (tr, Inl e) \<and>
                prefix tr (concat (map (itemCalls ev context) (allMenuItems c))))"
    using follows_throwsD[OF f] by blast
  have 3: "\<forall>tr c'. filterContributions ev context c = (tr, Inr c') \<longrightarrow>
       evaluateEntry ev context c =
         (case evaluateContributions ev context c' of (tr2, r) \<Rightarrow> (tr @ tr2, r))"
    by (intro allI impI) (rule evaluateEntry_after_filter)
  have 4: "\<forall>tr2 c' c''. evaluateContributions ev context c' = (tr2, Inr c'') \<longrightarrow> menus c'' = menus c'"
    by (intro allI impI) (rule menus_evaluateContributions)
  show ?thesis by (intro conjI 1 2 3 4)
qed

theorem filterContributions_spec_witness:
  "wellFormed exampleB \<and> plainKeys exampleB \<and>
   filterContributions exampleEvaluators ''Bo'' exampleB =
     ([EvaluateExpr ''false'' ''Bo'', EvaluateExpr ''true'' ''Bo'', EvaluateExpr ''false'' ''Bo''],
      Inr (exampleB\<lparr>menus := Some [(''editor/title'', [exampleItem ''b2'' (Some ''true'')]),
                                     (''commandPalette'', [exampleItem ''b'' None]),
                                     (''help'', [])]\<rparr>)) \<and>
   wellFormed exampleBadWhen \<and> plainKeys exampleBadWhen \<and>
   filterContributions exampleEvaluators ''Bo'' exampleBadWhen
     = ([EvaluateExpr ''a &&'' ''Bo''], Inl (Error ''parse error''))"
proof -
  have wfB: "wellFormed exampleB" and wfW: "wellFormed exampleBadWhen"
    by (simp_all add: wellFormed_def exampleB_def exampleBadWhen_def)
  have pB: "plainKeys exampleB" and pW: "plainKeys exampleBadWhen"
    by (simp_all add: plainKeys_def objectPrototypeKeys_def exampleB_def exampleBadWhen_def)
  have ok: "\<forall>item\<in>set (allMenuItems exampleB). \<not> itemThrows exampleEvaluators ''Bo'' item"
    by (simp add: allMenuItems_def exampleB_def itemThrows_def exampleItem_def exampleEvaluators_def)
  have bad: "\<exists>item\<in>set (allMenuItems exampleBadWhen). itemThrows exampleEvaluators ''Bo'' item"
    by (simp add: allMenuItems_def exampleBadWhen_def itemThrows_def exampleItem_def exampleEvaluators_def)
  have r: "filterContributions exampleEvaluators ''Bo'' exampleBadWhen
     = ([EvaluateExpr ''a &&'' ''Bo''], Inl (Error ''parse error''))"
    by (simp add: filterContributions_def exampleBadWhen_def contextFilter_def andThen_def
        callEvaluateExpr_def exampleItem_def exampleEvaluators_def)
  show ?thesis
    using wfB wfW pB pW r ok bad filterContributions_spec[OF wfB pB, of exampleEvaluators "''Bo''"]
      filterContributions_spec[OF wfW pW, of exampleEvaluators "''Bo''"]
    by (simp add: allMenuItems_def exampleB_def itemCalls_def keepItem_def exampleItem_def
        exampleEvaluators_def)
qed

text \<open>With a non-empty \<open>TEMPLATE_BEGIN\<close> the default predicate is false of the empty
  string, so there the truthiness guard and the predicate agree.\<close>

lemma defaultNeedsEvaluation_empty:
  "TEMPLATE_BEGIN \<noteq> [] \<Longrightarrow> \<not> defaultNeedsEvaluation TEMPLATE_BEGIN []"
  by (simp add: defaultNeedsEvaluation_def)

lemma interpolated_fieldValue:
  "\<not> fieldThrows ev cc f \<Longrightarrow> interpolated ev cc f = Inr (fieldValue ev cc f)"
  by (cases "evaluateTemplate ev (the f) cc")
     (auto simp: fieldThrows_def fieldValue_def interpolated_def)

lemma fieldCalls_EvaluateTemplate:
  "EvaluateTemplate s c \<in> set (fieldCalls ev cc f) \<Longrightarrow> s \<noteq> [] \<and> needsEvaluation ev s"
  by (auto simp: fieldCalls_def truthy_def split: if_splits option.splits)

lemma fieldCalls_nonempty_arg:
  "NeedsEvaluation [] \<notin> set (fieldCalls ev cc f) \<and> EvaluateTemplate [] c \<notin> set (fieldCalls ev cc f)"
  by (auto simp: fieldCalls_def truthy_def split: if_splits option.splits)

lemma fieldCalls_falsy: "f = None \<or> f = Some [] \<Longrightarrow> fieldCalls ev cc f = []"
  by (auto simp: fieldCalls_def truthy_def)

lemma fieldValue_falsy: "f = None \<or> f = Some [] \<Longrightarrow> fieldValue ev cc f = f"
  by (rule fieldValue_unchanged) (auto simp: interpolates_def truthy_def)

lemma concat_fieldCalls_filter:
  "concat (map (fieldCalls ev cc) (filter (\<lambda>f. f \<noteq> None \<and> f \<noteq> Some []) fs))
     = concat (map (fieldCalls ev cc) fs)"
  by (induction fs) (auto simp: fieldCalls_falsy)

lemma commandThrows_fields:
  "\<not> commandThrows ev cc cmd \<Longrightarrow>
     \<not> fieldThrows ev cc (title cmd) \<and> \<not> fieldThrows ev cc (category cmd) \<and>
     \<not> fieldThrows ev cc (CommandContribution.description cmd) \<and>
     \<not> fieldThrows ev cc (CommandContribution.iconURL cmd) \<and>
     (\<forall>a. actionItem cmd = Some a \<longrightarrow>
        \<not> fieldThrows ev cc (label a) \<and> \<not> fieldThrows ev cc (ActionItem.description a) \<and>
        \<not> fieldThrows ev cc (group a) \<and> \<not> fieldThrows ev cc (ActionItem.iconURL a) \<and>
        \<not> fieldThrows ev cc (iconDescription a))"
  by (auto simp: commandThrows_def displayFields_def actionItemFields_def)

lemma evaluateContributions_commands:
  assumes "evaluateContributions ev context c = (tr, Inr c')"
  shows "list_all2 (\<lambda>cmd cmd'. \<exists>t m. evaluateCommand ev context cmd = (t, Inr (m, cmd')))
           (commandsOf c) (commandsOf c')"
proof -
  let ?cc = "createChildContext ev context"
  note res = follows_result[OF follows_evaluateContributions assms]
  have nt: "\<forall>cmd\<in>set (commandsOf c). \<not> commandThrows ev ?cc cmd" using res by simp
  have c': "commandsOf c' = map (commandValue ev ?cc) (commandsOf c)"
    using res by (simp add: commandsOf_def split: option.splits)
  have "\<exists>t m. evaluateCommand ev context cmd = (t, Inr (m, commandValue ev ?cc cmd))"
    if "cmd \<in> set (commandsOf c)" for cmd
    using follows_returnsD[OF follows_evaluateCommand[of ev "context" cmd]] nt that
    by blast
  then show ?thesis
    unfolding c' by (simp add: list.rel_map list.rel_refl_strong)
qed

text \<open>
  C4, as amended. Whatever the outcome of evaluating a command, the calls made are a
  prefix of the calls for its display fields, in the order title, category, description,
  iconURL and then label, description, group, iconURL, iconDescription of the action
  item; \<open>evaluateTemplate\<close> is only ever called on a non-empty string for which
  \<open>needsEvaluation\<close> is true. When no template throws, all those calls are made and each
  display field is replaced by \<open>evaluateTemplate(field, childContext)\<close> exactly when the
  field is present, not the empty string, and \<open>needsEvaluation(field)\<close> is true, and is
  left untouched otherwise; the sub-fields of the action item follow the same rule one by
  one. The command is replaced by a new object (\<open>modified\<close>) exactly when at least one
  field was interpolated; otherwise the original object is pushed. Every command of the
  evaluated contributions is the result of this on the command at the same position.
\<close>

theorem evaluateCommand_spec:
  assumes run: "evaluateCommand ev context cmd = (tr, r)"
    and cc: "cc = createChildContext ev context"
  shows
   "prefix tr (concat (map (fieldCalls ev cc) (displayFields cmd))) \<and>
    (\<forall>s c. EvaluateTemplate s c \<in> set tr \<longrightarrow> s \<noteq> [] \<and> needsEvaluation ev s) \<and>
    (case r of
       Inl e \<Rightarrow> \<exists>f\<in>set (displayFields cmd). fieldThrows ev cc f
     | Inr (modified, cmd') \<Rightarrow>
         tr = concat (map (fieldCalls ev cc) (displayFields cmd)) \<and>
         CommandContribution.command cmd' = CommandContribution.command cmd \<and>
         Inr (title cmd') = interpolated ev cc (title cmd) \<and>
         Inr (category cmd') = interpolated ev cc (category cmd) \<and>
         Inr (CommandContribution.description cmd') = interpolated ev cc (CommandContribution.description cmd) \<and>
         Inr (CommandContribution.iconURL cmd') = interpolated ev cc (CommandContribution.iconURL cmd) \<and>
         (case actionItem cmd of
            None \<Rightarrow> actionItem cmd' = None
          | Some a \<Rightarrow>
              (\<exists>a'. actionItem cmd' = Some a' \<and>
                 Inr (label a') = interpolated ev cc (label a) \<and>
                 Inr (ActionItem.description a') = interpolated ev cc (ActionItem.description a) \<and>
                 Inr (group a') = interpolated ev cc (group a) \<and>
                 Inr (ActionItem.iconURL a') = interpolated ev cc (ActionItem.iconURL a) \<and>
                 Inr (iconDescription a') = interpolated ev cc (iconDescription a))) \<and>
         (modified \<longleftrightarrow> (\<exists>f\<in>set (displayFields cmd). interpolates ev f)) \<and>
         (\<not> modified \<longrightarrow> cmd' = cmd)) \<and>
    (\<forall>c t c'. evaluateContributions ev context c = (t, Inr c') \<longrightarrow>
       list_all2 (\<lambda>x x'. \<exists>t m. evaluateCommand ev context x = (t, Inr (m, x')))
         (commandsOf c) (commandsOf c'))"
proof -
  note res = follows_result[OF follows_evaluateCommand run, folded cc]
  have pre: "prefix tr (concat (map (fieldCalls ev cc) (displayFields cmd)))"
    using res by (simp add: commandCalls_def)
  have tmpl: "\<forall>s c. EvaluateTemplate s c \<in> set tr \<longrightarrow> s \<noteq> [] \<and> needsEvaluation ev s"
  proof (intro allI impI)
    fix s c assume "EvaluateTemplate s c \<in> set tr"
    then have "EvaluateTemplate s c \<in> set (concat (map (fieldCalls ev cc) (displayFields cmd)))"
      using set_mono_prefix[OF pre] by blast
    then show "s \<noteq> [] \<and> needsEvaluation ev s"
      by (auto dest: fieldCalls_EvaluateTemplate)
  qed
  have out: "case r of
       Inl e \<Rightarrow> \<exists>f\<in>set (displayFields cmd). fieldThrows ev cc f
     | Inr (modified, cmd') \<Rightarrow>
         tr = concat (map (fieldCalls ev cc) (displayFields cmd)) \<and>
         CommandContribution.command cmd' = CommandContribution.command cmd \<and>
         Inr (title cmd') = interpolated ev cc (title cmd) \<and>
         Inr (category cmd') = interpolated ev cc (category cmd) \<and>
         Inr (CommandContribution.description cmd') = interpolated ev cc (CommandContribution.description cmd) \<and>
         Inr (CommandContribution.iconURL cmd') = interpolated ev cc (CommandContribution.iconURL cmd) \<and>
         (case actionItem cmd of
            None \<Rightarrow> actionItem cmd' = None
          | Some a \<Rightarrow>
              (\<exists>a'. actionItem cmd' = Some a' \<and>
                 Inr (label a') = interpolated ev cc (label a) \<and>
                 Inr (ActionItem.description a') = interpolated ev cc (ActionItem.description a) \<and>
                 Inr (group a') = interpolated ev cc (group a) \<and>
                 Inr (ActionItem.iconURL a') = interpolated ev cc (ActionItem.iconURL a) \<and>
                 Inr (iconDescription a') = interpolated ev cc (iconDescription a))) \<and>
         (modified \<longleftrightarrow> (\<exists>f\<in>set (displayFields cmd). interpolates ev f)) \<and>
         (\<not> modified \<longrightarrow> cmd' = cmd)"
  proof (cases r)
    case (Inl e)
    then show ?thesis using res by (simp add: commandThrows_def)
  next
    case (Inr x)
    then have nt: "\<not> commandThrows ev cc cmd" and tr: "tr = commandCalls ev cc cmd"
      and x: "x = (commandInterpolates ev cmd, commandValue ev cc cmd)"
      using res by simp_all
    note ft = commandThrows_fields[OF nt]
    show ?thesis
    proof (cases "actionItem cmd")
      case None
      then show ?thesis
        using ft commandValue_unchanged[of ev cmd cc]
        by (simp add: Inr x tr commandCalls_def commandValue_def interpolated_fieldValue
            commandInterpolates_def)
    next
      case (Some a)
      then show ?thesis
        using ft commandValue_unchanged[of ev cmd cc]
        by (simp add: Inr x tr commandCalls_def commandValue_def actionItemValue_def
            interpolated_fieldValue commandInterpolates_def)
    qed
  qed
  have lift: "\<forall>c t c'. evaluateContributions ev context c = (t, Inr c') \<longrightarrow>
       list_all2 (\<lambda>x x'. \<exists>t m. evaluateCommand ev context x = (t, Inr (m, x')))
         (commandsOf c) (commandsOf c')"
    by (intro allI impI) (rule evaluateContributions_commands)
  show ?thesis by (intro conjI pre tmpl out lift)
qed

theorem evaluateCommand_spec_witness:
  "evaluateCommand exampleEvaluators ''Bo'' (exampleCommand ''a'' (Some ''Hello ${user}''))
     = ([NeedsEvaluation ''Hello ${user}'', EvaluateTemplate ''Hello ${user}'' ''Bo''],
        Inr (True, exampleCommand ''a'' (Some ''Hello Bo''))) \<and>
   interpolated exampleEvaluators ''Bo'' (Some ''Hello ${user}'') = Inr (Some ''Hello Bo'') \<and>
   evaluateCommand exampleEvaluators ''Bo'' (exampleCommand ''b'' (Some ''Plain''))
     = ([NeedsEvaluation ''Plain''], Inr (False, exampleCommand ''b'' (Some ''Plain''))) \<and>
   evaluateCommand exampleEvaluators ''Bo'' (exampleCommand ''c'' (Some ''Bye ${user}''))
     = ([NeedsEvaluation ''Bye ${user}'', EvaluateTemplate ''Bye ${user}'' ''Bo''],
        Inl (Error ''template error''))"
proof -
  have a: "evaluateCommand exampleEvaluators ''Bo'' (exampleCommand ''a'' (Some ''Hello ${user}''))
     = ([NeedsEvaluation ''Hello ${user}'', EvaluateTemplate ''Hello ${user}'' ''Bo''],
        Inr (True, exampleCommand ''a'' (Some ''Hello Bo'')))"
    by (simp add: evaluateCommand_def Let_def evaluateField_def truthy_def andThen_def ret_def
        callNeedsEvaluation_def callEvaluateTemplate_def spread_def exampleCommand_def
        exampleEvaluators_def)
  have b: "evaluateCommand exampleEvaluators ''Bo'' (exampleCommand ''b'' (Some ''Plain''))
     = ([NeedsEvaluation ''Plain''], Inr (False, exampleCommand ''b'' (Some ''Plain'')))"
    by (simp add: evaluateCommand_def Let_def evaluateField_def truthy_def andThen_def ret_def
        callNeedsEvaluation_def callEvaluateTemplate_def spread_def exampleCommand_def
        exampleEvaluators_def)
  have c: "evaluateCommand exampleEvaluators ''Bo'' (exampleCommand ''c'' (Some ''Bye ${user}''))
     = ([NeedsEvaluation ''Bye ${user}'', EvaluateTemplate ''Bye ${user}'' ''Bo''],
        Inl (Error ''template error''))"
    by (simp add: evaluateCommand_def Let_def evaluateField_def truthy_def andThen_def ret_def
        callNeedsEvaluation_def callEvaluateTemplate_def spread_def exampleCommand_def
        exampleEvaluators_def)
  have cc: "''Bo'' = createChildContext exampleEvaluators ''Bo''"
    by (simp add: exampleEvaluators_def)
  show ?thesis
    using a b c evaluateCommand_spec[OF a cc] evaluateCommand_spec[OF b cc]
      evaluateCommand_spec[OF c cc]
    by (simp add: exampleCommand_def)
qed

text \<open>
  C4 as stated fails on two inputs the function accepts. With a \<open>needsEvaluation\<close> that
  is true of the empty string, an empty title is not replaced by the template's value and
  no evaluator is called. With a template that evaluates to its own text, the command is
  replaced by a new object although no field has a new value.
\<close>

theorem evaluateCommand_empty_field_counterexample:
  "needsEvaluation eagerEvaluators '''' \<and>
   evaluateTemplate eagerEvaluators '''' () = Inr ''(empty)'' \<and>
   evaluateCommand eagerEvaluators () (exampleCommand ''a'' (Some ''''))
     = ([], Inr (False, exampleCommand ''a'' (Some ''''))) \<and>
   title (exampleCommand ''a'' (Some '''')) \<noteq> Some ''(empty)'' \<and>
   evaluateCommand eagerEvaluators () (exampleCommand ''a'' (Some ''Plain''))
     = ([NeedsEvaluation ''Plain'', EvaluateTemplate ''Plain'' ()],
        Inr (True, exampleCommand ''a'' (Some ''Plain'')))"
  by (simp add: evaluateCommand_def Let_def evaluateField_def truthy_def andThen_def ret_def
      callNeedsEvaluation_def callEvaluateTemplate_def spread_def exampleCommand_def
      eagerEvaluators_def)

lemma commandValue_falsy_fields:
  "(title cmd = None \<or> title cmd = Some [] \<longrightarrow> title (commandValue ev cc cmd) = title cmd) \<and>
   (category cmd = None \<or> category cmd = Some [] \<longrightarrow> category (commandValue ev cc cmd) = category cmd) \<and>
   (CommandContribution.description cmd = None \<or> CommandContribution.description cmd = Some [] \<longrightarrow>
      CommandContribution.description (commandValue ev cc cmd) = CommandContribution.description cmd) \<and>
   (CommandContribution.iconURL cmd = None \<or> CommandContribution.iconURL cmd = Some [] \<longrightarrow>
      CommandContribution.iconURL (commandValue ev cc cmd) = CommandContribution.iconURL cmd)"
  by (simp add: commandValue_def fieldValue_falsy)

lemma actionItemValue_falsy_fields:
  "(label a = None \<or> label a = Some [] \<longrightarrow> label (actionItemValue ev cc a) = label a) \<and>
   (ActionItem.description a = None \<or> ActionItem.description a = Some [] \<longrightarrow>
      ActionItem.description (actionItemValue ev cc a) = ActionItem.description a) \<and>
   (group a = None \<or> group a = Some [] \<longrightarrow> group (actionItemValue ev cc a) = group a) \<and>
   (ActionItem.iconURL a = None \<or> ActionItem.iconURL a = Some [] \<longrightarrow>
      ActionItem.iconURL (actionItemValue ev cc a) = ActionItem.iconURL a) \<and>
   (iconDescription a = None \<or> iconDescription a = Some [] \<longrightarrow>
      iconDescription (actionItemValue ev cc a) = iconDescription a)"
  by (simp add: actionItemValue_def fieldValue_falsy)

text \<open>
  C10. Whatever \<open>needsEvaluation\<close> says and whatever the outcome, evaluating a command
  makes calls only for the display fields that are present and not the empty string, so
  neither \<open>needsEvaluation\<close> nor \<open>evaluateTemplate\<close> is ever called on the empty string;
  and in the command it returns, every display field (of the command or of its action
  item) that was absent or the empty string is unchanged.
\<close>

theorem evaluateCommand_truthiness_guard:
  assumes run: "evaluateCommand ev context cmd = (tr, r)"
    and cc: "cc = createChildContext ev context"
  shows
   "prefix tr (concat (map (fieldCalls ev cc)
                        (filter (\<lambda>f. f \<noteq> None \<and> f \<noteq> Some []) (displayFields cmd)))) \<and>
    NeedsEvaluation [] \<notin> set tr \<and>
    (\<forall>c. EvaluateTemplate [] c \<notin> set tr) \<and>
    (\<forall>modified cmd'. r = Inr (modified, cmd') \<longrightarrow>
       tr = concat (map (fieldCalls ev cc)
                      (filter (\<lambda>f. f \<noteq> None \<and> f \<noteq> Some []) (displayFields cmd))) \<and>
       (title cmd = None \<or> title cmd = Some [] \<longrightarrow> title cmd' = title cmd) \<and>
       (category cmd = None \<or> category cmd = Some [] \<longrightarrow> category cmd' = category cmd) \<and>
       (CommandContribution.description cmd = None \<or> CommandContribution.description cmd = Some [] \<longrightarrow>
          CommandContribution.description cmd' = CommandContribution.description cmd) \<and>
       (CommandContribution.iconURL cmd = None \<or> CommandContribution.iconURL cmd = Some [] \<longrightarrow>
          CommandContribution.iconURL cmd' = CommandContribution.iconURL cmd) \<and>
       (case actionItem cmd of
          None \<Rightarrow> actionItem cmd' = None
        | Some a \<Rightarrow>
            (\<exists>a'. actionItem cmd' = Some a' \<and>
               (label a = None \<or> label a = Some [] \<longrightarrow> label a' = label a) \<and>
               (ActionItem.description a = None \<or> ActionItem.description a = Some [] \<longrightarrow>
                  ActionItem.description a' = ActionItem.description a) \<and>
               (group a = None \<or> group a = Some [] \<longrightarrow> group a' = group a) \<and>
               (ActionItem.iconURL a = None \<or> ActionItem.iconURL a = Some [] \<longrightarrow>
                  ActionItem.iconURL a' = ActionItem.iconURL a) \<and>
               (iconDescription a = None \<or> iconDescription a = Some [] \<longrightarrow>
                  iconDescription a' = iconDescription a))))"
proof -
  note res = follows_result[OF follows_evaluateCommand run, folded cc]
  let ?calls = "concat (map (fieldCalls ev cc) (displayFields cmd))"
  have pre: "prefix tr ?calls" using res by (simp add: commandCalls_def)
  have sub: "set tr \<subseteq> set ?calls" by (rule set_mono_prefix[OF pre])
  have n: "NeedsEvaluation [] \<notin> set ?calls" and t: "\<forall>c. EvaluateTemplate [] c \<notin> set ?calls"
    using fieldCalls_nonempty_arg[of ev cc] by auto
  have 1: "prefix tr (concat (map (fieldCalls ev cc)
                        (filter (\<lambda>f. f \<noteq> None \<and> f \<noteq> Some []) (displayFields cmd))))"
    using pre by (simp only: concat_fieldCalls_filter)
  have 2: "NeedsEvaluation [] \<notin> set tr" using n sub by blast
  have 3: "\<forall>c. EvaluateTemplate [] c \<notin> set tr" using t sub by blast
  have 4: "\<forall>modified cmd'. r = Inr (modified, cmd') \<longrightarrow>
       tr = concat (map (fieldCalls ev cc)
                      (filter (\<lambda>f. f \<noteq> None \<and> f \<noteq> Some []) (displayFields cmd))) \<and>
       (title cmd = None \<or> title cmd = Some [] \<longrightarrow> title cmd' = title cmd) \<and>
       (category cmd = None \<or> category cmd = Some [] \<longrightarrow> category cmd' = category cmd) \<and>
       (CommandContribution.description cmd = None \<or> CommandContribution.description cmd = Some [] \<longrightarrow>
          CommandContribution.description cmd' = CommandContribution.description cmd) \<and>
       (CommandContribution.iconURL cmd = None \<or> CommandContribution.iconURL cmd = Some [] \<longrightarrow>
          CommandContribution.iconURL cmd' = CommandContribution.iconURL cmd) \<and>
       (case actionItem cmd of
          None \<Rightarrow> actionItem cmd' = None
        | Some a \<Rightarrow>
            (\<exists>a'. actionItem cmd' = Some a' \<and>
               (label a = None \<or> label a = Some [] \<longrightarrow> label a' = label a) \<and>
               (ActionItem.description a = None \<or> ActionItem.description a = Some [] \<longrightarrow>
                  ActionItem.description a' = ActionItem.description a) \<and>
               (group a = None \<or> group a = Some [] \<longrightarrow> group a' = group a) \<and>
               (ActionItem.iconURL a = None \<or> ActionItem.iconURL a = Some [] \<longrightarrow>
                  ActionItem.iconURL a' = ActionItem.iconURL a) \<and>
               (iconDescription a = None \<or> iconDescription a = Some [] \<longrightarrow>
                  iconDescription a' = iconDescription a)))"
  proof (intro allI impI)
    fix modified cmd'
    assume r: "r = Inr (modified, cmd')"
    then have tr: "tr = ?calls" and c': "cmd' = commandValue ev cc cmd"
      using res by (simp_all add: commandCalls_def)
    have ai: "case actionItem cmd of
          None \<Rightarrow> actionItem cmd' = None
        | Some a \<Rightarrow>
            (\<exists>a'. actionItem cmd' = Some a' \<and>
               (label a = None \<or> label a = Some [] \<longrightarrow> label a' = label a) \<and>
               (ActionItem.description a = None \<or> ActionItem.description a = Some [] \<longrightarrow>
                  ActionItem.description a' = ActionItem.description a) \<and>
               (group a = None \<or> group a = Some [] \<longrightarrow> group a' = group a) \<and>
               (ActionItem.iconURL a = None \<or> ActionItem.iconURL a = Some [] \<longrightarrow>
                  ActionItem.iconURL a' = ActionItem.iconURL a) \<and>
               (iconDescription a = None \<or> iconDescription a = Some [] \<longrightarrow>
                  iconDescription a' = iconDescription a))"
    proof (cases "actionItem cmd")
      case None
      then show ?thesis by (simp add: c' commandValue_def)
    next
      case (Some a)
      have "actionItem cmd' = Some (actionItemValue ev cc a)"
        by (simp add: c' commandValue_def Some)
      then show ?thesis
        using actionItemValue_falsy_fields[of a ev cc] by (simp add: Some)
    qed
    show "tr = concat (map (fieldCalls ev cc)
                      (filter (\<lambda>f. f \<noteq> None \<and> f \<noteq> Some []) (displayFields cmd))) \<and>
       (title cmd = None \<or> title cmd = Some [] \<longrightarrow> title cmd' = title cmd) \<and>
       (category cmd = None \<or> category cmd = Some [] \<longrightarrow> category cmd' = category cmd) \<and>
       (CommandContribution.description cmd = None \<or> CommandContribution.description cmd = Some [] \<longrightarrow>
          CommandContribution.description cmd' = CommandContribution.description cmd) \<and>
       (CommandContribution.iconURL cmd = None \<or> CommandContribution.iconURL cmd = Some [] \<longrightarrow>
          CommandContribution.iconURL cmd' = CommandContribution.iconURL cmd) \<and>
       (case actionItem cmd of
          None \<Rightarrow> actionItem cmd' = None
        | Some a \<Rightarrow>
            (\<exists>a'. actionItem cmd' = Some a' \<and>
               (label a = None \<or> label a = Some [] \<longrightarrow> label a' = label a) \<and>
               (ActionItem.description a = None \<or> ActionItem.description a = Some [] \<longrightarrow>
                  ActionItem.description a' = ActionItem.description a) \<and>
               (group a = None \<or> group a = Some [] \<longrightarrow> group a' = group a) \<and>
               (ActionItem.iconURL a = None \<or> ActionItem.iconURL a = Some [] \<longrightarrow>
                  ActionItem.iconURL a' = ActionItem.iconURL a) \<and>
               (iconDescription a = None \<or> iconDescription a = Some [] \<longrightarrow>
                  iconDescription a' = iconDescription a)))"
      using commandValue_falsy_fields[of cmd ev cc] ai
      by (simp only: tr c' concat_fieldCalls_filter) blast
  qed
  show ?thesis by (intro conjI 1 2 3 4)
qed

theorem evaluateCommand_truthiness_guard_witness:
  "evaluateCommand eagerEvaluators ()
     \<lparr>CommandContribution.command = ''open'', title = Some '''', category = None,
      description = Some ''Plain'', iconURL = None,
      actionItem = Some \<lparr>label = Some '''', description = None, group = Some ''nav'',
                         iconURL = None, iconDescription = None\<rparr>\<rparr>
   = ([NeedsEvaluation ''Plain'', EvaluateTemplate ''Plain'' (),
       NeedsEvaluation ''nav'', EvaluateTemplate ''nav'' ()],
      Inr (True,
        \<lparr>CommandContribution.command = ''open'', title = Some '''', category = None,
         description = Some ''Plain'', iconURL = None,
         actionItem = Some \<lparr>label = Some '''', description = None, group = Some ''nav'',
                            iconURL = None, iconDescription = None\<rparr>\<rparr>)) \<and>
   needsEvaluation eagerEvaluators ''''"
proof -
  have run: "evaluateCommand eagerEvaluators ()
     \<lparr>CommandContribution.command = ''open'', title = Some '''', category = None,
      description = Some ''Plain'', iconURL = None,
      actionItem = Some \<lparr>label = Some '''', description = None, group = Some ''nav'',
                         iconURL = None, iconDescription = None\<rparr>\<rparr>
   = ([NeedsEvaluation ''Plain'', EvaluateTemplate ''Plain'' (),
       NeedsEvaluation ''nav'', EvaluateTemplate ''nav'' ()],
      Inr (True,
        \<lparr>CommandContribution.command = ''open'', title = Some '''', category = None,
         description = Some ''Plain'', iconURL = None,
         actionItem = Some \<lparr>label = Some '''', description = None, group = Some ''nav'',
                            iconURL = None, iconDescription = None\<rparr>\<rparr>))"
    by (simp add: evaluateCommand_def evaluateActionItem_def Let_def evaluateField_def truthy_def
        andThen_def ret_def callNeedsEvaluation_def callEvaluateTemplate_def spread_def
        eagerEvaluators_def)
  have cc: "() = createChildContext eagerEvaluators ()" by simp
  have n: "needsEvaluation eagerEvaluators []" by (simp add: eagerEvaluators_def)
  show ?thesis
    using evaluateCommand_truthiness_guard[OF run cc] run n by simp
qed

section \<open>Properties of the registry\<close>

lemma publish_fields [simp]:
  "entries (publish a s) = entries s"
  "transitions (publish a s) = transitions s"
  "latestContext (publish a s) = latestContext s"
  "computed (publish a s) = computed s"
  "console (publish a s) = console s"
  by (simp_all add: publish_def)

lemma published_publish:
  "published (publish a s) =
     (if published s \<noteq> [] \<and> isEqual (last (published s)) a then published s else published s @ [a])"
  by (simp add: publish_def)

lemma recompute_fields [simp]:
  "entries (recompute ev s) = entries s"
  "transitions (recompute ev s) = transitions s"
  "latestContext (recompute ev s) = latestContext s"
  by (simp_all add: recompute_def split: option.splits)

lemma computed_recompute:
  "computed (recompute ev s) =
     (case latestContext s of None \<Rightarrow> computed s
      | Some ctx \<Rightarrow> computed s @ [aggregate ev ctx (entries s)])"
  by (simp add: recompute_def split: option.splits)

lemma console_recompute:
  "console (recompute ev s) =
     (case latestContext s of None \<Rightarrow> console s
      | Some ctx \<Rightarrow> console s @ reportedErrors ev ctx (entries s))"
  by (simp add: recompute_def split: option.splits)

lemma published_recompute:
  "published (recompute ev s) =
     (case latestContext s of None \<Rightarrow> published s
      | Some ctx \<Rightarrow>
          if published s \<noteq> [] \<and> isEqual (last (published s)) (aggregate ev ctx (entries s))
          then published s else published s @ [aggregate ev ctx (entries s)])"
  by (simp add: recompute_def published_publish split: option.splits)

lemma entriesNext_fields [simp]:
  "entries (entriesNext ev es s) = es"
  "transitions (entriesNext ev es s) = transitions s @ [es]"
  "latestContext (entriesNext ev es s) = latestContext s"
  by (simp_all add: entriesNext_def)

lemma contextNext_fields [simp]:
  "entries (contextNext ev ctx s) = entries s"
  "transitions (contextNext ev ctx s) = transitions s"
  "latestContext (contextNext ev ctx s) = Some ctx"
  by (simp_all add: contextNext_def)

lemma entries_applyOp: "entries (applyOp ev s op) = registeredAfter (entries s) op"
  by (cases op) (simp_all add: registerContributions_def replaceContributions_def unsubscribe_def)

lemma run_Nil: "run ev s [] = s"
  by (simp add: run_def)

lemma run_Cons: "run ev s (op # ops) = run ev (applyOp ev s op) ops"
  by (simp add: run_def)

lemma run_snoc: "run ev s (ops @ [op]) = applyOp ev (run ev s ops) op"
  by (simp add: run_def)

lemma entries_run: "entries (run ev s ops) = foldl registeredAfter (entries s) ops"
  by (induction ops arbitrary: s) (simp_all add: entries_applyOp run_Nil run_Cons)

lemma entries_run_init: "entries (run ev init ops) = registered ops"
  by (simp add: entries_run registered_def init_def)

text \<open>Every operation ends in a recomputation.\<close>

lemma applyOp_is_recompute: "\<exists>s'. applyOp ev s op = recompute ev s'"
  by (cases op)
     (auto simp: registerContributions_def replaceContributions_def unsubscribe_def
       entriesNext_def contextNext_def)

lemma upToDate_recompute:
  "latestContext s = None \<longrightarrow> published s = [] \<Longrightarrow> upToDate ev (recompute ev s)"
  by (auto simp: upToDate_def published_recompute isEqual_refl split: option.splits)

lemma published_Nil_applyOp:
  "published s = [] \<Longrightarrow> latestContext (applyOp ev s op) = None \<Longrightarrow> published (applyOp ev s op) = []"
  by (cases op)
     (auto simp: registerContributions_def replaceContributions_def unsubscribe_def
       entriesNext_def contextNext_def published_recompute split: option.splits)

lemma no_context_no_published:
  "latestContext (run ev init ops) = None \<Longrightarrow> published (run ev init ops) = []"
proof (induction ops rule: rev_induct)
  case Nil
  show ?case by (simp add: init_def run_Nil)
next
  case (snoc op ops)
  have "latestContext (run ev init ops) = None"
    using snoc.prems by (cases op)
      (simp_all add: run_snoc registerContributions_def replaceContributions_def unsubscribe_def)
  then have "published (run ev init ops) = []" by (rule snoc.IH)
  then show ?case using snoc.prems by (simp add: run_snoc published_Nil_applyOp)
qed

lemma upToDate_run: "upToDate ev (run ev init ops)"
proof (cases "latestContext (run ev init ops)")
  case None
  then show ?thesis by (simp add: upToDate_def no_context_no_published)
next
  case (Some ctx)
  then obtain op ops' where ops: "ops = ops' @ [op]"
    by (cases ops rule: rev_cases) (auto simp: init_def run_Nil)
  obtain s' where s': "applyOp ev (run ev init ops') op = recompute ev s'"
    using applyOp_is_recompute by blast
  have "latestContext s' = Some ctx" using Some by (simp add: ops run_snoc s')
  then show ?thesis by (simp add: ops run_snoc s' upToDate_recompute)
qed

lemma commandsOf_tryEvaluateEntry:
  "commandsOf (fst (tryEvaluateEntry ev ctx (contributions e))) = entryCommands ev ctx e"
  by (simp add: tryEvaluateEntry_def entryCommands_def commandsOf_emptyContributions
      split: sum.splits)

lemma commandsOf_aggregate:
  "commandsOf (aggregate ev ctx es) = concat (map (entryCommands ev ctx) es)"
  by (simp add: aggregate_def evaluateEntries_def commandsOf_mergeContributions comp_def
      commandsOf_tryEvaluateEntry)

lemma isEqual_commandsOf: "isEqual a b \<Longrightarrow> commandsOf a = commandsOf b"
  by (simp add: commandsOf_def isEqual_commands)

lemma set_registeredAfter:
  "set (registeredAfter es op) \<subseteq> set es \<union> set (registeredBy op)"
  by (cases op) auto

lemma set_foldl_registeredAfter:
  "set (foldl registeredAfter es ops) \<subseteq> set es \<union> (\<Union>op\<in>set ops. set (registeredBy op))"
proof (induction ops arbitrary: es)
  case Nil
  show ?case by simp
next
  case (Cons op ops)
  show ?case
    using Cons.IH[of "registeredAfter es op"] set_registeredAfter[of es op] by auto
qed

lemma registered_plainKeys:
  assumes "\<forall>op\<in>set ops. \<forall>e\<in>set (registeredBy op). plainKeys (contributions e)"
  shows "\<forall>e\<in>set (registered ops). plainKeys (contributions e)"
  using assms set_foldl_registeredAfter[of "[]" ops] unfolding registered_def by auto

text \<open>
  C1. After any sequence of register, replace, deregister and context operations on a new
  registry that hands it entries whose menu keys are menu identifiers (none of them a
  property name of \<open>Object.prototype\<close>), once a context snapshot has arrived: the store
  holds the entries in registration order as the specification describes them, all of
  them with such keys, an aggregate has been published, the last published aggregate is
  deep-equal to the merge of the evaluated entries for the latest context, and its
  commands are the concatenation, in registration order, of the filtered and
  interpolated commands of the registered entries, an entry whose evaluation throws
  contributing none.
\<close>

theorem published_commands:
  assumes "latestContext (run ev init ops) = Some ctx"
    and "\<forall>op\<in>set ops. \<forall>e\<in>set (registeredBy op). plainKeys (contributions e)"
  shows "entries (run ev init ops) = registered ops \<and>
         (\<forall>e\<in>set (registered ops). plainKeys (contributions e)) \<and>
         published (run ev init ops) \<noteq> [] \<and>
         isEqual (last (published (run ev init ops))) (aggregate ev ctx (registered ops)) \<and>
         commandsOf (last (published (run ev init ops)))
           = concat (map (\<lambda>e. case snd (evaluateEntry ev ctx (contributions e)) of
                                 Inl err \<Rightarrow> []
                               | Inr evaluated \<Rightarrow> commandsOf evaluated)
                         (registered ops))"
proof -
  have e: "entries (run ev init ops) = registered ops" by (rule entries_run_init)
  have p: "\<forall>e\<in>set (registered ops). plainKeys (contributions e)"
    using assms(2) by (rule registered_plainKeys)
  have u: "published (run ev init ops) \<noteq> [] \<and>
           isEqual (last (published (run ev init ops))) (aggregate ev ctx (registered ops))"
    using upToDate_run[of ev ops] assms(1) by (simp add: upToDate_def e)
  have "(\<lambda>e. case snd (evaluateEntry ev ctx (contributions e)) of
                Inl err \<Rightarrow> [] | Inr evaluated \<Rightarrow> commandsOf evaluated) = entryCommands ev ctx"
    by (rule ext) (simp add: entryCommands_def)
  then have c: "commandsOf (last (published (run ev init ops)))
           = concat (map (\<lambda>e. case snd (evaluateEntry ev ctx (contributions e)) of
                                 Inl err \<Rightarrow> []
                               | Inr evaluated \<Rightarrow> commandsOf evaluated)
                         (registered ops))"
    using isEqual_commandsOf[OF conjunct2[OF u]] by (simp add: commandsOf_aggregate)
  show ?thesis using e p u c by simp
qed

theorem published_commands_witness:
  "plainKeys exampleA \<and> plainKeys exampleB \<and> plainKeys exampleBadTemplate \<and>
   latestContext (run exampleEvaluators init
      [ContextNext ''Bo'',
       Register \<lparr>ref = 1, contributions = exampleA\<rparr>,
       Register \<lparr>ref = 2, contributions = exampleBadTemplate\<rparr>,
       Register \<lparr>ref = 3, contributions = exampleB\<rparr>,
       Replace \<lparr>entry = \<lparr>ref = 1, contributions = exampleA\<rparr>\<rparr> \<lparr>ref = 4, contributions = exampleA\<rparr>,
       ContextNext ''Zed'']) = Some ''Zed'' \<and>
   commandsOf (last (published (run exampleEvaluators init
      [ContextNext ''Bo'',
       Register \<lparr>ref = 1, contributions = exampleA\<rparr>,
       Register \<lparr>ref = 2, contributions = exampleBadTemplate\<rparr>,
       Register \<lparr>ref = 3, contributions = exampleB\<rparr>,
       Replace \<lparr>entry = \<lparr>ref = 1, contributions = exampleA\<rparr>\<rparr> \<lparr>ref = 4, contributions = exampleA\<rparr>,
       ContextNext ''Zed''])))
     = [exampleCommand ''b'' (Some ''Plain''), exampleCommand ''a'' (Some ''Hello Zed'')]"
proof -
  let ?ops = "[ContextNext ''Bo'',
       Register \<lparr>ref = 1, contributions = exampleA\<rparr>,
       Register \<lparr>ref = 2, contributions = exampleBadTemplate\<rparr>,
       Register \<lparr>ref = 3, contributions = exampleB\<rparr>,
       Replace \<lparr>entry = \<lparr>ref = 1, contributions = exampleA\<rparr>\<rparr> \<lparr>ref = 4, contributions = exampleA\<rparr>,
       ContextNext ''Zed'']"
  have ctx: "latestContext (run exampleEvaluators init ?ops) = Some ''Zed''"
    by (simp add: run_Cons run_Nil registerContributions_def replaceContributions_def)
  have p: "plainKeys exampleA" "plainKeys exampleB" "plainKeys exampleBadTemplate"
    by (simp_all add: plainKeys_def objectPrototypeKeys_def exampleA_def exampleB_def
        exampleBadTemplate_def)
  have plain: "\<forall>op\<in>set ?ops. \<forall>e\<in>set (registeredBy op). plainKeys (contributions e)"
    using p by simp
  have reg: "registered ?ops =
      [\<lparr>ref = 2, contributions = exampleBadTemplate\<rparr>, \<lparr>ref = 3, contributions = exampleB\<rparr>,
       \<lparr>ref = 4, contributions = exampleA\<rparr>]"
    by (simp add: registered_def)
  have bad: "snd (evaluateEntry exampleEvaluators ''Zed'' exampleBadTemplate) = Inl (Error ''template error'')"
    by (simp add: evaluateEntry_def filterContributions_def contextFilter_def
        evaluateContributions_def evaluateCommand_def Let_def evaluateField_def truthy_def
        andThen_def ret_def callNeedsEvaluation_def callEvaluateTemplate_def callEvaluateExpr_def
        spread_def exampleBadTemplate_def exampleCommand_def exampleItem_def exampleEvaluators_def)
  have b: "snd (evaluateEntry exampleEvaluators ''Zed'' exampleB) =
      Inr (exampleB\<lparr>menus := Some [(''editor/title'', [exampleItem ''b2'' (Some ''true'')]),
                                     (''commandPalette'', [exampleItem ''b'' None]),
                                     (''help'', [])]\<rparr>)"
    by (simp add: evaluateEntry_def filterContributions_def contextFilter_def
        evaluateContributions_def evaluateCommand_def Let_def evaluateField_def truthy_def
        andThen_def ret_def callNeedsEvaluation_def callEvaluateTemplate_def callEvaluateExpr_def
        spread_def exampleB_def exampleCommand_def exampleItem_def exampleEvaluators_def)
  have a: "snd (evaluateEntry exampleEvaluators ''Zed'' exampleA) =
      Inr (exampleA\<lparr>commands := Some [exampleCommand ''a'' (Some ''Hello Zed'')]\<rparr>)"
    by (simp add: evaluateEntry_def filterContributions_def contextFilter_def
        evaluateContributions_def evaluateCommand_def Let_def evaluateField_def truthy_def
        andThen_def ret_def callNeedsEvaluation_def callEvaluateTemplate_def callEvaluateExpr_def
        spread_def exampleA_def exampleCommand_def exampleItem_def exampleEvaluators_def)
  have e2: "(case snd (evaluateEntry exampleEvaluators ''Zed'' exampleBadTemplate) of
               Inl err \<Rightarrow> [] | Inr evaluated \<Rightarrow> commandsOf evaluated) = []"
    by (simp add: bad)
  have e3: "(case snd (evaluateEntry exampleEvaluators ''Zed'' exampleB) of
               Inl err \<Rightarrow> [] | Inr evaluated \<Rightarrow> commandsOf evaluated)
            = [exampleCommand ''b'' (Some ''Plain'')]"
    by (simp add: b commandsOf_def, simp add: exampleB_def)
  have e4: "(case snd (evaluateEntry exampleEvaluators ''Zed'' exampleA) of
               Inl err \<Rightarrow> [] | Inr evaluated \<Rightarrow> commandsOf evaluated)
            = [exampleCommand ''a'' (Some ''Hello Zed'')]"
    by (simp add: a commandsOf_def)
  have "commandsOf (last (published (run exampleEvaluators init ?ops)))
      = concat (map (\<lambda>e. case snd (evaluateEntry exampleEvaluators ''Zed'' (contributions e)) of
                            Inl err \<Rightarrow> [] | Inr evaluated \<Rightarrow> commandsOf evaluated)
                    (registered ?ops))"
    using published_commands[OF ctx plain] by blast
  then have "commandsOf (last (published (run exampleEvaluators init ?ops)))
      = [exampleCommand ''b'' (Some ''Plain''), exampleCommand ''a'' (Some ''Hello Zed'')]"
    unfolding reg by (simp add: e2 e3 e4)
  then show ?thesis using ctx p by blast
qed

lemma tryEvaluateEntry_throws:
  "snd (evaluateEntry ev ctx c) = Inl err \<Longrightarrow>
     tryEvaluateEntry ev ctx c = (emptyContributions, [(c, err)])"
  by (simp add: tryEvaluateEntry_def)

lemma evaluateEntries_append:
  "evaluateEntries ev ctx (xs @ ys) = evaluateEntries ev ctx xs @ evaluateEntries ev ctx ys"
  by (simp add: evaluateEntries_def)

lemma reportedErrors_append:
  "reportedErrors ev ctx (xs @ ys) = reportedErrors ev ctx xs @ reportedErrors ev ctx ys"
  by (simp add: reportedErrors_def)

text \<open>
  C2. When the evaluation of one entry throws, whatever entries stand before and after
  it: its place in the evaluated list holds the empty \<open>Contributions\<close>; the error is
  reported, with the entry's contributions, between the reports of the entries before
  and after it; the other entries evaluate to what they evaluate to without it; the
  aggregate is the merge of the evaluated other entries, so it is the aggregate of the
  registry without the failing entry; and a recomputation in a registry holding these
  entries writes the report to the console and computes that aggregate.
\<close>

theorem failing_entry_isolated:
  assumes "snd (evaluateEntry ev ctx (contributions e)) = Inl err"
  shows
   "evaluateEntries ev ctx (xs @ e # ys)
      = evaluateEntries ev ctx xs @ emptyContributions # evaluateEntries ev ctx ys \<and>
    reportedErrors ev ctx (xs @ e # ys)
      = reportedErrors ev ctx xs @ (contributions e, err) # reportedErrors ev ctx ys \<and>
    evaluateEntries ev ctx (xs @ ys) = evaluateEntries ev ctx xs @ evaluateEntries ev ctx ys \<and>
    aggregate ev ctx (xs @ e # ys) = mergeContributions (evaluateEntries ev ctx (xs @ ys)) \<and>
    isEqual (aggregate ev ctx (xs @ e # ys)) (aggregate ev ctx (xs @ ys)) \<and>
    (\<forall>s. latestContext s = Some ctx \<and> entries s = xs @ e # ys \<longrightarrow>
       (contributions e, err) \<in> set (console (recompute ev s)) \<and>
       computed (recompute ev s) = computed s @ [aggregate ev ctx (xs @ ys)])"
proof -
  note t = tryEvaluateEntry_throws[OF assms]
  have 1: "evaluateEntries ev ctx (xs @ e # ys)
      = evaluateEntries ev ctx xs @ emptyContributions # evaluateEntries ev ctx ys"
    by (simp add: evaluateEntries_def t)
  have 2: "reportedErrors ev ctx (xs @ e # ys)
      = reportedErrors ev ctx xs @ (contributions e, err) # reportedErrors ev ctx ys"
    by (simp add: reportedErrors_def t)
  have 3: "evaluateEntries ev ctx (xs @ ys) = evaluateEntries ev ctx xs @ evaluateEntries ev ctx ys"
    by (rule evaluateEntries_append)
  have 4: "aggregate ev ctx (xs @ e # ys) = mergeContributions (evaluateEntries ev ctx (xs @ ys))"
    by (simp only: aggregate_def 1 3 mergeContributions_drop_empty)
  then have a: "aggregate ev ctx (xs @ e # ys) = aggregate ev ctx (xs @ ys)"
    by (simp add: aggregate_def)
  have 5: "isEqual (aggregate ev ctx (xs @ e # ys)) (aggregate ev ctx (xs @ ys))"
    by (simp add: a isEqual_refl)
  have 6: "\<forall>s. latestContext s = Some ctx \<and> entries s = xs @ e # ys \<longrightarrow>
       (contributions e, err) \<in> set (console (recompute ev s)) \<and>
       computed (recompute ev s) = computed s @ [aggregate ev ctx (xs @ ys)]"
    by (simp add: console_recompute computed_recompute 2 a)
  show ?thesis by (intro conjI 1 2 3 4 5 6)
qed

theorem failing_entry_isolated_witness:
  "snd (evaluateEntry exampleEvaluators ''Bo'' exampleBadWhen) = Inl (Error ''parse error'') \<and>
   evaluateEntries exampleEvaluators ''Bo''
     [\<lparr>ref = 1, contributions = exampleA\<rparr>, \<lparr>ref = 2, contributions = exampleBadWhen\<rparr>]
     = [exampleA\<lparr>commands := Some [exampleCommand ''a'' (Some ''Hello Bo'')]\<rparr>, emptyContributions] \<and>
   reportedErrors exampleEvaluators ''Bo''
     [\<lparr>ref = 1, contributions = exampleA\<rparr>, \<lparr>ref = 2, contributions = exampleBadWhen\<rparr>]
     = [(exampleBadWhen, Error ''parse error'')] \<and>
   aggregate exampleEvaluators ''Bo''
     [\<lparr>ref = 1, contributions = exampleA\<rparr>, \<lparr>ref = 2, contributions = exampleBadWhen\<rparr>]
     = exampleA\<lparr>commands := Some [exampleCommand ''a'' (Some ''Hello Bo'')]\<rparr>"
proof -
  have bad: "snd (evaluateEntry exampleEvaluators ''Bo'' exampleBadWhen) = Inl (Error ''parse error'')"
    by (simp add: evaluateEntry_def filterContributions_def contextFilter_def
        andThen_def ret_def callEvaluateExpr_def
        exampleBadWhen_def exampleItem_def exampleEvaluators_def)
  have a: "snd (evaluateEntry exampleEvaluators ''Bo'' exampleA) =
      Inr (exampleA\<lparr>commands := Some [exampleCommand ''a'' (Some ''Hello Bo'')]\<rparr>)"
    by (simp add: evaluateEntry_def filterContributions_def contextFilter_def
        evaluateContributions_def evaluateCommand_def Let_def evaluateField_def truthy_def
        andThen_def ret_def callNeedsEvaluation_def callEvaluateTemplate_def callEvaluateExpr_def
        spread_def exampleA_def exampleCommand_def exampleItem_def exampleEvaluators_def)
  have ta: "tryEvaluateEntry exampleEvaluators ''Bo'' exampleA
      = (exampleA\<lparr>commands := Some [exampleCommand ''a'' (Some ''Hello Bo'')]\<rparr>, [])"
    by (simp add: tryEvaluateEntry_def a)
  have c: "contributions \<lparr>ref = 2, contributions = exampleBadWhen\<rparr> = exampleBadWhen" by simp
  show ?thesis
    using failing_entry_isolated[of exampleEvaluators "''Bo''" "\<lparr>ref = 2, contributions = exampleBadWhen\<rparr>"
        "Error ''parse error''" "[\<lparr>ref = 1, contributions = exampleA\<rparr>]" "[]", unfolded c, OF bad]
    by (simp add: bad ta evaluateEntries_def reportedErrors_def mergeContributions_def)
qed

lemma computed_entriesNext:
  "computed (entriesNext ev es s) =
     (case latestContext s of None \<Rightarrow> computed s | Some ctx \<Rightarrow> computed s @ [aggregate ev ctx es])"
  by (simp add: entriesNext_def computed_recompute split: option.splits)

lemma published_entriesNext:
  "published (entriesNext ev es s) =
     (case latestContext s of None \<Rightarrow> published s
      | Some ctx \<Rightarrow>
          if published s \<noteq> [] \<and> isEqual (last (published s)) (aggregate ev ctx es)
          then published s else published s @ [aggregate ev ctx es])"
  by (simp add: entriesNext_def published_recompute split: option.splits)

lemma published_contextNext:
  "published (contextNext ev ctx s) =
     (if published s \<noteq> [] \<and> isEqual (last (published s)) (aggregate ev ctx (entries s))
      then published s else published s @ [aggregate ev ctx (entries s)])"
  by (simp add: contextNext_def published_recompute)

text \<open>
  C7. One call of \<open>replaceContributions\<close> pushes exactly one value through
  \<open>_entries.next\<close>: the old list without the replaced entry and with the new entry at
  the end. The new entry is in it, and the replaced one is not (unless it is the new
  entry itself). The call returns the handle of the new entry and leaves the context
  alone. With a context snapshot at hand it causes exactly one recomputation, of the
  aggregate of that list; without one it causes none; either way at most one aggregate
  is published. Deregistering and then registering instead pushes two values, the first
  of them without the new entry.
\<close>

theorem replaceContributions_atomic:
  "entries (fst (replaceContributions ev previous next s))
     = filter (\<lambda>e. ref e \<noteq> ref (entry previous)) (entries s) @ [next] \<and>
   transitions (fst (replaceContributions ev previous next s))
     = transitions s @ [filter (\<lambda>e. ref e \<noteq> ref (entry previous)) (entries s) @ [next]] \<and>
   snd (replaceContributions ev previous next s) = \<lparr>entry = next\<rparr> \<and>
   next \<in> set (entries (fst (replaceContributions ev previous next s))) \<and>
   (ref (entry previous) \<noteq> ref next \<longrightarrow>
      ref (entry previous) \<notin> ref ` set (entries (fst (replaceContributions ev previous next s)))) \<and>
   latestContext (fst (replaceContributions ev previous next s)) = latestContext s \<and>
   (\<forall>ctx. latestContext s = Some ctx \<longrightarrow>
      computed (fst (replaceContributions ev previous next s))
        = computed s @ [aggregate ev ctx (filter (\<lambda>e. ref e \<noteq> ref (entry previous)) (entries s) @ [next])]) \<and>
   (latestContext s = None \<longrightarrow>
      computed (fst (replaceContributions ev previous next s)) = computed s \<and>
      published (fst (replaceContributions ev previous next s)) = published s) \<and>
   length (published (fst (replaceContributions ev previous next s))) \<le> length (published s) + 1 \<and>
   transitions (fst (registerContributions ev next (unsubscribe ev previous s)))
     = transitions s @ [filter (\<lambda>e. ref e \<noteq> ref (entry previous)) (entries s),
                        filter (\<lambda>e. ref e \<noteq> ref (entry previous)) (entries s) @ [next]]"
  by (auto simp: replaceContributions_def registerContributions_def unsubscribe_def
      computed_entriesNext published_entriesNext split: option.splits)

theorem replaceContributions_atomic_witness:
  "latestContext (run exampleEvaluators init
       [ContextNext ''Bo'', Register \<lparr>ref = 5, contributions = exampleA\<rparr>]) = Some ''Bo'' \<and>
   entries (run exampleEvaluators init
       [ContextNext ''Bo'', Register \<lparr>ref = 5, contributions = exampleA\<rparr>])
     = [\<lparr>ref = 5, contributions = exampleA\<rparr>] \<and>
   entries (fst (replaceContributions exampleEvaluators
       \<lparr>entry = \<lparr>ref = 5, contributions = exampleA\<rparr>\<rparr> \<lparr>ref = 2, contributions = exampleB\<rparr>
       (run exampleEvaluators init [ContextNext ''Bo'', Register \<lparr>ref = 5, contributions = exampleA\<rparr>])))
     = [\<lparr>ref = 2, contributions = exampleB\<rparr>] \<and>
   transitions (fst (replaceContributions exampleEvaluators
       \<lparr>entry = \<lparr>ref = 5, contributions = exampleA\<rparr>\<rparr> \<lparr>ref = 2, contributions = exampleB\<rparr>
       (run exampleEvaluators init [ContextNext ''Bo'', Register \<lparr>ref = 5, contributions = exampleA\<rparr>])))
     = [[\<lparr>ref = 5, contributions = exampleA\<rparr>], [\<lparr>ref = 2, contributions = exampleB\<rparr>]] \<and>
   computed (fst (replaceContributions exampleEvaluators
       \<lparr>entry = \<lparr>ref = 5, contributions = exampleA\<rparr>\<rparr> \<lparr>ref = 2, contributions = exampleB\<rparr>
       (run exampleEvaluators init [ContextNext ''Bo'', Register \<lparr>ref = 5, contributions = exampleA\<rparr>])))
     = computed (run exampleEvaluators init
         [ContextNext ''Bo'', Register \<lparr>ref = 5, contributions = exampleA\<rparr>])
       @ [aggregate exampleEvaluators ''Bo'' [\<lparr>ref = 2, contributions = exampleB\<rparr>]]"
proof -
  let ?s = "run exampleEvaluators init [ContextNext ''Bo'', Register \<lparr>ref = 5, contributions = exampleA\<rparr>]"
  have c: "latestContext ?s = Some ''Bo''"
    by (simp add: run_Cons run_Nil registerContributions_def)
  have e: "entries ?s = [\<lparr>ref = 5, contributions = exampleA\<rparr>]"
    by (simp add: run_Cons run_Nil registerContributions_def init_def)
  have t: "transitions ?s = [[\<lparr>ref = 5, contributions = exampleA\<rparr>]]"
    by (simp add: run_Cons run_Nil registerContributions_def init_def)
  show ?thesis
    using replaceContributions_atomic[of exampleEvaluators
      "\<lparr>entry = \<lparr>ref = 5, contributions = exampleA\<rparr>\<rparr>" "\<lparr>ref = 2, contributions = exampleB\<rparr>" ?s]
    by (simp add: c e t)
qed

lemma entries_operations:
  "entries (fst (registerContributions ev e s)) = entries s @ [e]"
  "entries (fst (replaceContributions ev previous next s))
     = filter (\<lambda>e. ref e \<noteq> ref (entry previous)) (entries s) @ [next]"
  "entries (unsubscribe ev h s) = filter (\<lambda>e. ref e \<noteq> ref (entry h)) (entries s)"
  by (simp_all add: registerContributions_def replaceContributions_def unsubscribe_def)

lemma distinct_registeredAfter:
  "distinct (map ref (entries s)) \<Longrightarrow> freshOp s op \<Longrightarrow>
     distinct (map ref (registeredAfter (entries s) op))"
  by (cases op) (auto simp: distinct_map_filter)

lemma distinct_run:
  "distinct (map ref (entries s)) \<Longrightarrow> freshOps ev s ops \<Longrightarrow>
     distinct (map ref (entries (run ev s ops)))"
proof (induction ops arbitrary: s)
  case Nil
  then show ?case by (simp add: run_Nil)
next
  case (Cons op ops)
  have "distinct (map ref (entries (applyOp ev s op)))"
    using Cons.prems distinct_registeredAfter[of s op] by (simp add: entries_applyOp)
  then show ?case using Cons.prems Cons.IH by (simp add: run_Cons)
qed

text \<open>
  C8, as amended. In a run of operations on a new registry in which every registration
  passes an entry object that is not in the store at that moment, and every replacement
  an entry object that is not in the store once the replaced entry is removed, the store
  never holds the same entry object at two positions.
\<close>

theorem fresh_entries_distinct:
  "freshOps ev init ops \<Longrightarrow> distinct (map ref (entries (run ev init ops)))"
  by (rule distinct_run) (simp_all add: init_def)

theorem fresh_entries_distinct_witness:
  "freshOps exampleEvaluators init
     [Register \<lparr>ref = 1, contributions = exampleA\<rparr>,
      Register \<lparr>ref = 2, contributions = exampleB\<rparr>,
      Replace \<lparr>entry = \<lparr>ref = 1, contributions = exampleA\<rparr>\<rparr> \<lparr>ref = 1, contributions = exampleA\<rparr>,
      Unsubscribe \<lparr>entry = \<lparr>ref = 2, contributions = exampleB\<rparr>\<rparr>,
      Register \<lparr>ref = 2, contributions = exampleB\<rparr>] \<and>
   distinct (map ref (entries (run exampleEvaluators init
     [Register \<lparr>ref = 1, contributions = exampleA\<rparr>,
      Register \<lparr>ref = 2, contributions = exampleB\<rparr>,
      Replace \<lparr>entry = \<lparr>ref = 1, contributions = exampleA\<rparr>\<rparr> \<lparr>ref = 1, contributions = exampleA\<rparr>,
      Unsubscribe \<lparr>entry = \<lparr>ref = 2, contributions = exampleB\<rparr>\<rparr>,
      Register \<lparr>ref = 2, contributions = exampleB\<rparr>])))"
proof -
  have f: "freshOps exampleEvaluators init
     [Register \<lparr>ref = 1, contributions = exampleA\<rparr>,
      Register \<lparr>ref = 2, contributions = exampleB\<rparr>,
      Replace \<lparr>entry = \<lparr>ref = 1, contributions = exampleA\<rparr>\<rparr> \<lparr>ref = 1, contributions = exampleA\<rparr>,
      Unsubscribe \<lparr>entry = \<lparr>ref = 2, contributions = exampleB\<rparr>\<rparr>,
      Register \<lparr>ref = 2, contributions = exampleB\<rparr>]"
    by (simp add: entries_operations init_def)
  show ?thesis using f fresh_entries_distinct[OF f] by (rule conjI)
qed

text \<open>
  C8 as stated fails: \<open>registerContributions\<close> appends without looking, so registering
  the same entry object twice puts it in the store twice.
\<close>

theorem duplicate_registration_counterexample:
  "entries (run exampleEvaluators init
     [Register \<lparr>ref = 1, contributions = exampleA\<rparr>, Register \<lparr>ref = 1, contributions = exampleA\<rparr>])
     = [\<lparr>ref = 1, contributions = exampleA\<rparr>, \<lparr>ref = 1, contributions = exampleA\<rparr>] \<and>
   \<not> distinct (map ref (entries (run exampleEvaluators init
     [Register \<lparr>ref = 1, contributions = exampleA\<rparr>, Register \<lparr>ref = 1, contributions = exampleA\<rparr>])))"
  by (simp add: entries_run init_def)

lemma published_applyOp:
  "published (applyOp ev s op) =
     (case latestContext (applyOp ev s op) of
        None \<Rightarrow> published s
      | Some ctx \<Rightarrow>
          if published s \<noteq> [] \<and>
             isEqual (last (published s)) (aggregate ev ctx (entries (applyOp ev s op)))
          then published s
          else published s @ [aggregate ev ctx (entries (applyOp ev s op))])"
  by (cases op)
     (simp_all add: registerContributions_def replaceContributions_def unsubscribe_def
       published_entriesNext published_contextNext split: option.splits)

lemma successively_snoc:
  "successively P (xs @ [a]) \<longleftrightarrow> successively P xs \<and> (xs \<noteq> [] \<longrightarrow> P (last xs) a)"
  by (cases xs rule: rev_cases) (auto simp: successively_append_iff)

lemma successively_applyOp:
  "successively (\<lambda>a b. \<not> isEqual a b) (published s) \<Longrightarrow>
     successively (\<lambda>a b. \<not> isEqual a b) (published (applyOp ev s op))"
  by (auto simp: published_applyOp successively_snoc split: option.splits)

lemma successively_run:
  "successively (\<lambda>a b. \<not> isEqual a b) (published s) \<Longrightarrow>
     successively (\<lambda>a b. \<not> isEqual a b) (published (run ev s ops))"
  by (induction ops arbitrary: s) (simp_all add: run_Nil run_Cons successively_applyOp)

text \<open>
  C9. At every trigger that recomputes (an operation after which a context snapshot is at
  hand), the observer is notified of the new aggregate unless something was published
  before and the new aggregate is deep-equal to the last published one; then nothing is
  delivered. Two consecutive triggers whose aggregates are deep-equal deliver at most
  one aggregate between them. In every run on a new registry no two consecutive
  published aggregates are deep-equal: the observer never sees a no-op change.
\<close>

theorem publish_suppresses_duplicates:
  "(\<forall>ctx. latestContext (applyOp ev s op) = Some ctx \<longrightarrow>
      published (applyOp ev s op) =
        (if published s \<noteq> [] \<and>
            isEqual (last (published s)) (aggregate ev ctx (entries (applyOp ev s op)))
         then published s
         else published s @ [aggregate ev ctx (entries (applyOp ev s op))])) \<and>
   (\<forall>ctx ctx'.
      latestContext (applyOp ev s op) = Some ctx \<and>
      latestContext (applyOp ev (applyOp ev s op) op') = Some ctx' \<and>
      isEqual (aggregate ev ctx (entries (applyOp ev s op)))
              (aggregate ev ctx' (entries (applyOp ev (applyOp ev s op) op'))) \<longrightarrow>
      length (published (applyOp ev (applyOp ev s op) op')) \<le> length (published s) + 1) \<and>
   successively (\<lambda>a b. \<not> isEqual a b) (published (run ev init ops))"
proof -
  have 1: "\<forall>ctx. latestContext (applyOp ev s op) = Some ctx \<longrightarrow>
      published (applyOp ev s op) =
        (if published s \<noteq> [] \<and>
            isEqual (last (published s)) (aggregate ev ctx (entries (applyOp ev s op)))
         then published s
         else published s @ [aggregate ev ctx (entries (applyOp ev s op))])"
    by (simp add: published_applyOp[of ev s op])
  have 2: "\<forall>ctx ctx'.
      latestContext (applyOp ev s op) = Some ctx \<and>
      latestContext (applyOp ev (applyOp ev s op) op') = Some ctx' \<and>
      isEqual (aggregate ev ctx (entries (applyOp ev s op)))
              (aggregate ev ctx' (entries (applyOp ev (applyOp ev s op) op'))) \<longrightarrow>
      length (published (applyOp ev (applyOp ev s op) op')) \<le> length (published s) + 1"
  proof (intro allI impI, elim conjE)
    fix ctx ctx'
    let ?s1 = "applyOp ev s op"
    let ?s2 = "applyOp ev ?s1 op'"
    assume c1: "latestContext ?s1 = Some ctx" and c2: "latestContext ?s2 = Some ctx'"
      and eq: "isEqual (aggregate ev ctx (entries ?s1)) (aggregate ev ctx' (entries ?s2))"
    show "length (published ?s2) \<le> length (published s) + 1"
    proof (cases "published ?s1 = published s")
      case True
      then show ?thesis
        by (simp add: published_applyOp[of ev ?s1 op'] c2)
    next
      case False
      then have p1: "published ?s1 = published s @ [aggregate ev ctx (entries ?s1)]"
        by (simp add: published_applyOp[of ev s op] c1 split: if_splits)
      then have "published ?s2 = published ?s1"
        using eq by (simp add: published_applyOp[of ev ?s1 op'] c2)
      then show ?thesis by (simp add: p1)
    qed
  qed
  have 3: "successively (\<lambda>a b. \<not> isEqual a b) (published (run ev init ops))"
    by (rule successively_run) (simp add: init_def)
  show ?thesis by (intro conjI 1 2 3)
qed

theorem publish_suppresses_duplicates_witness:
  "latestContext (applyOp exampleEvaluators init (ContextNext ''Bo'')) = Some ''Bo'' \<and>
   latestContext (applyOp exampleEvaluators (applyOp exampleEvaluators init (ContextNext ''Bo''))
                    (ContextNext ''Zed'')) = Some ''Zed'' \<and>
   isEqual (aggregate exampleEvaluators ''Bo''
              (entries (applyOp exampleEvaluators init (ContextNext ''Bo''))))
           (aggregate exampleEvaluators ''Zed''
              (entries (applyOp exampleEvaluators (applyOp exampleEvaluators init (ContextNext ''Bo''))
                    (ContextNext ''Zed'')))) \<and>
   computed (applyOp exampleEvaluators (applyOp exampleEvaluators init (ContextNext ''Bo''))
               (ContextNext ''Zed'')) = [emptyContributions, emptyContributions] \<and>
   published (applyOp exampleEvaluators (applyOp exampleEvaluators init (ContextNext ''Bo''))
                (ContextNext ''Zed'')) = [emptyContributions]"
proof -
  have a: "aggregate exampleEvaluators c [] = emptyContributions" for c
    by (simp add: aggregate_def evaluateEntries_def mergeContributions_def)
  have e: "entries (init :: string registry) = []" "published (init :: string registry) = []"
    "computed (init :: string registry) = []"
    by (simp_all add: init_def)
  have c: "computed (applyOp exampleEvaluators (applyOp exampleEvaluators init (ContextNext ''Bo''))
               (ContextNext ''Zed'')) = [emptyContributions, emptyContributions]"
    by (simp add: contextNext_def computed_recompute a e)
  show ?thesis
    using publish_suppresses_duplicates[of exampleEvaluators init "ContextNext ''Bo''"
        "ContextNext ''Zed''" "[]"] c
    by (simp add: a e isEqual_refl published_contextNext)
qed

end
